theory Spec2Isabelle
  imports Complex_Main
begin

section \<open>GraphManager: the adjacency model over the items\<close>

text \<open>
  The class \<open>GraphManager\<close> keeps an item count and a square matrix of numbers
  (\<open>0\<close> or \<open>1\<close>). Node indices handed to the public methods are JavaScript numbers;
  they are modelled as \<open>int\<close>, so that negative indices are inputs of the model. Loop
  counters are \<open>nat\<close>.

  \<open>TypeError\<close> is what JavaScript throws on a store into \<open>undefined\<close>.
  \<open>InvalidIndex\<close> is the error kind the specification names for an index outside
  \<open>[0, N)\<close>; no function of the source raises it.
\<close>

datatype js_error = TypeError | InvalidIndex

record GraphManager =
  imageCount :: nat
  adjacencyMatrix :: "nat list list"

text \<open>\<open>Array(n).fill(null).map(() => Array(n).fill(0))\<close>\<close>

definition initializeMatrix :: "nat \<Rightarrow> nat list list" where
  "initializeMatrix n = replicate n (replicate n 0)"

text \<open>
  An indexed store \<open>xs[j] = v\<close> on a JavaScript array: in range it overwrites, beyond the
  end it extends the array. The holes such a store leaves read as \<open>undefined\<close>, which is
  not \<open>=== 1\<close>; they are written as \<open>0\<close>, the other value that is not \<open>=== 1\<close>.
\<close>

definition js_store :: "nat list \<Rightarrow> nat \<Rightarrow> nat \<Rightarrow> nat list" where
  "js_store xs j v =
     (if j < length xs then xs[j := v] else xs @ replicate (j - length xs) 0 @ [v])"

text \<open>\<open>m[i][j] = v\<close> for a row \<open>i\<close> that exists.\<close>

definition set_cell :: "nat list list \<Rightarrow> nat \<Rightarrow> nat \<Rightarrow> nat \<Rightarrow> nat list list" where
  "set_cell m i j v = m[i := js_store (m ! i) j v]"

definition isValidEdge :: "GraphManager \<Rightarrow> int \<Rightarrow> int \<Rightarrow> bool" where
  "isValidEdge g i j \<longleftrightarrow>
     i \<noteq> j \<and> i \<ge> 0 \<and> j \<ge> 0 \<and>
     i < int (length (adjacencyMatrix g)) \<and>
     j < int (length (adjacencyMatrix g))"

definition addEdge :: "GraphManager \<Rightarrow> int \<Rightarrow> int \<Rightarrow> GraphManager" where
  "addEdge g i j =
     (if isValidEdge g i j
      then g\<lparr>adjacencyMatrix :=
              set_cell (set_cell (adjacencyMatrix g) (nat i) (nat j) 1) (nat j) (nat i) 1\<rparr>
      else g)"

definition removeEdge :: "GraphManager \<Rightarrow> int \<Rightarrow> int \<Rightarrow> GraphManager" where
  "removeEdge g i j =
     (if isValidEdge g i j
      then g\<lparr>adjacencyMatrix :=
              set_cell (set_cell (adjacencyMatrix g) (nat i) (nat j) 0) (nat j) (nat i) 0\<rparr>
      else g)"

definition areConnected :: "GraphManager \<Rightarrow> int \<Rightarrow> int \<Rightarrow> bool" where
  "areConnected g i j =
     (if \<not> isValidEdge g i j then False
      else adjacencyMatrix g ! nat i ! nat j = 1)"

text \<open>
  The first loop of \<open>setupCompleteGraph\<close> stores \<open>0\<close> on the diagonal. Reading row \<open>i\<close>
  of a matrix with fewer rows gives \<open>undefined\<close>, and the store into it throws.
\<close>

fun clearDiagonal :: "nat list \<Rightarrow> nat list list \<Rightarrow> js_error + nat list list" where
  "clearDiagonal [] m = Inr m"
| "clearDiagonal (i # is) m =
     (if i < length m then clearDiagonal is (set_cell m i i 0) else Inl TypeError)"

text \<open>The second, nested loop: \<open>addEdge(i, j)\<close> for \<open>i < j < imageCount\<close>.\<close>

definition connectRow :: "nat \<Rightarrow> GraphManager \<Rightarrow> GraphManager" where
  "connectRow i g = fold (\<lambda>j g'. addEdge g' (int i) (int j)) [Suc i..<imageCount g] g"

definition connectAll :: "GraphManager \<Rightarrow> GraphManager" where
  "connectAll g = fold connectRow [0..<imageCount g] g"

definition setupCompleteGraph :: "GraphManager \<Rightarrow> js_error + GraphManager" where
  "setupCompleteGraph g =
     (case clearDiagonal [0..<imageCount g] (adjacencyMatrix g) of
        Inl e \<Rightarrow> Inl e
      | Inr m \<Rightarrow> Inr (connectAll (g\<lparr>adjacencyMatrix := m\<rparr>)))"

text \<open>
  The constructor: \<open>imageCount || GALLERY_CONFIG.itemCount\<close> takes the configured count
  when the argument is \<open>0\<close>.
\<close>

definition GraphManager_new :: "nat \<Rightarrow> nat \<Rightarrow> js_error + GraphManager" where
  "GraphManager_new count configItemCount =
     (let n = (if count = 0 then configItemCount else count)
      in setupCompleteGraph \<lparr>imageCount = n, adjacencyMatrix = initializeMatrix n\<rparr>)"

definition updateItemCount :: "GraphManager \<Rightarrow> nat \<Rightarrow> js_error + GraphManager" where
  "updateItemCount g newCount =
     (if newCount = imageCount g then Inr g
      else setupCompleteGraph
             \<lparr>imageCount = newCount, adjacencyMatrix = initializeMatrix newCount\<rparr>)"

text \<open>
  \<open>getConnections\<close>: the upper triangle, row by row, pushing \<open>{from: i, to: j}\<close> for
  every cell that is \<open>=== 1\<close>.
\<close>

definition connectionsOfRow :: "nat list list \<Rightarrow> nat \<Rightarrow> (nat \<times> nat) list \<Rightarrow> (nat \<times> nat) list" where
  "connectionsOfRow m i acc =
     fold (\<lambda>j acc'. if m ! i ! j = 1 then acc' @ [(i, j)] else acc')
       [Suc i..<length (m ! i)] acc"

definition getConnections :: "GraphManager \<Rightarrow> (nat \<times> nat) list" where
  "getConnections g =
     fold (connectionsOfRow (adjacencyMatrix g)) [0..<length (adjacencyMatrix g)] []"

section \<open>Breakpoints and the derived configuration\<close>

text \<open>
  JavaScript numbers are modelled as \<open>real\<close>: the model is the arithmetic the source
  writes, without rounding. The configuration object that \<open>GALLERY_CONFIG.current\<close>
  returns is a record of the fields the geometry and the connectors read.
\<close>

record config =
  radius :: real
  centerX :: real
  centerY :: real
  itemSize :: real
  itemCount :: nat
  containerWidth :: real
  containerHeight :: real
  breakpoint :: string
  strokeWidthNormal :: real
  strokeWidthHover :: real
  arcHeightRatio :: real

text \<open>
  An entry of \<open>BREAKPOINTS\<close>. \<open>DESKTOP\<close> has no \<open>max\<close> and \<open>MOBILE\<close> has no
  \<open>min\<close>: a missing property is \<open>None\<close>.
\<close>

record breakpoint_t =
  bp_name :: string
  bp_min :: "real option"
  bp_max :: "real option"
  bp_container :: real
  bp_center :: real
  bp_radius :: real
  bp_itemSize :: real

definition DESKTOP :: breakpoint_t where
  "DESKTOP = \<lparr>bp_name = ''desktop'', bp_min = Some 769, bp_max = None,
              bp_container = 600, bp_center = 300, bp_radius = 250, bp_itemSize = 100\<rparr>"

definition TABLET :: breakpoint_t where
  "TABLET = \<lparr>bp_name = ''tablet'', bp_min = Some 481, bp_max = Some 768,
             bp_container = 400, bp_center = 200, bp_radius = 150, bp_itemSize = 80\<rparr>"

definition MOBILE :: breakpoint_t where
  "MOBILE = \<lparr>bp_name = ''mobile'', bp_min = None, bp_max = Some 480,
             bp_container = 300, bp_center = 150, bp_radius = 100, bp_itemSize = 60\<rparr>"

definition BREAKPOINTS :: "breakpoint_t list" where
  "BREAKPOINTS = [DESKTOP, TABLET, MOBILE]"

text \<open>\<open>w >= b\<close> and \<open>w <= b\<close>; a comparison with \<open>undefined\<close> is false.\<close>

fun js_ge :: "real \<Rightarrow> real option \<Rightarrow> bool" where
  "js_ge w (Some b) = (w \<ge> b)"
| "js_ge w None = False"

fun js_le :: "real \<Rightarrow> real option \<Rightarrow> bool" where
  "js_le w (Some b) = (w \<le> b)"
| "js_le w None = False"

text \<open>\<open>getBreakpoint\<close> reads \<open>window.innerWidth\<close>; the width is its argument here.\<close>

definition getBreakpoint :: "real \<Rightarrow> breakpoint_t" where
  "getBreakpoint width =
     (if js_ge width (bp_min DESKTOP) then DESKTOP
      else if js_ge width (bp_min TABLET) \<and> js_le width (bp_max TABLET) then TABLET
      else MOBILE)"

text \<open>\<open>Math.round\<close> rounds half up.\<close>

definition js_round :: "real \<Rightarrow> real" where
  "js_round x = real_of_int \<lfloor>x + 1 / 2\<rfloor>"

definition calculateConfig :: "breakpoint_t \<Rightarrow> nat \<Rightarrow> config" where
  "calculateConfig b n =
     \<lparr>radius = bp_radius b, centerX = bp_center b, centerY = bp_center b,
      itemSize = bp_itemSize b, itemCount = n,
      containerWidth = bp_container b, containerHeight = bp_container b,
      breakpoint = bp_name b,
      strokeWidthNormal = max 3 (js_round (bp_container b / 120)),
      strokeWidthHover = max 5 (js_round (bp_container b / 75)),
      arcHeightRatio = 3 / 10\<rparr>"

section \<open>ResponsiveConfigManager: cache, subscribers and the debounced resize\<close>

text \<open>
  The static fields of \<open>ResponsiveConfigManager\<close>. The cache key
  \<open>`${breakpoint.name}_${itemCount}`\<close> is the pair of its two parts. A subscriber is
  identified by a number. \<open>debounceTimer\<close> is the time at which the pending timer is
  due, \<open>None\<close> when no timer is pending (\<open>clearTimeout\<close> on a timer that has fired
  does nothing).
\<close>

record ResponsiveConfigManager =
  configCache :: "string \<times> nat \<rightharpoonup> config"
  currentBreakpoint :: "breakpoint_t option"
  resizeCallbacks :: "nat list"
  debounceTimer :: "nat option"

text \<open>
  The manager together with what it reads and what it causes: the window's width, and
  the calls \<open>callback(newBreakpoint)\<close> made so far, in order.
\<close>

record browser =
  manager :: ResponsiveConfigManager
  innerWidth :: real
  delivered :: "(nat \<times> breakpoint_t) list"

definition getResponsiveConfig :: "browser \<Rightarrow> nat \<Rightarrow> config \<times> browser" where
  "getResponsiveConfig w n =
     (let b = getBreakpoint (innerWidth w);
          cacheKey = (bp_name b, n);
          m = manager w;
          c' = calculateConfig b n;
          calculated = (c', w\<lparr>manager := m\<lparr>configCache := (configCache m)(cacheKey \<mapsto> c'),
                                             currentBreakpoint := Some b\<rparr>\<rparr>)
      in case configCache m cacheKey of
           Some c \<Rightarrow>
             (if map_option bp_name (currentBreakpoint m) = Some (bp_name b) then (c, w)
              else calculated)
         | None \<Rightarrow> calculated)"

definition onResize :: "browser \<Rightarrow> nat \<Rightarrow> browser" where
  "onResize w cb =
     w\<lparr>manager := (manager w)\<lparr>resizeCallbacks := resizeCallbacks (manager w) @ [cb]\<rparr>\<rparr>"

definition offResize :: "browser \<Rightarrow> nat \<Rightarrow> browser" where
  "offResize w cb =
     w\<lparr>manager := (manager w)\<lparr>resizeCallbacks := remove1 cb (resizeCallbacks (manager w))\<rparr>\<rparr>"

text \<open>
  The listener that \<open>_setupResizeListener\<close> installs: it cancels the pending timer and
  sets a new one, due 300 ms after \<open>now\<close>.
\<close>

definition resizeListener :: "nat \<Rightarrow> browser \<Rightarrow> browser" where
  "resizeListener now w = w\<lparr>manager := (manager w)\<lparr>debounceTimer := Some (now + 300)\<rparr>\<rparr>"

text \<open>
  The body of the timer: subscribers are called, in the order of the array, only when
  the breakpoint of the present width differs by name from \<open>_currentBreakpoint\<close>.
\<close>

definition debounceCallback :: "browser \<Rightarrow> browser" where
  "debounceCallback w =
     (let newBreakpoint = getBreakpoint (innerWidth w);
          m = manager w
      in if currentBreakpoint m = None \<or>
            Some (bp_name newBreakpoint) \<noteq> map_option bp_name (currentBreakpoint m)
         then w\<lparr>manager := m\<lparr>configCache := Map.empty, currentBreakpoint := Some newBreakpoint\<rparr>,
                 delivered := delivered w @ map (\<lambda>cb. (cb, newBreakpoint)) (resizeCallbacks m)\<rparr>
         else w)"

text \<open>The state after \<open>init()\<close> in a window of the given width.\<close>

definition RCM_init :: "real \<Rightarrow> browser" where
  "RCM_init width =
     \<lparr>manager = \<lparr>configCache = Map.empty, currentBreakpoint = Some (getBreakpoint width),
                  resizeCallbacks = [], debounceTimer = None\<rparr>,
      innerWidth = width, delivered = []\<rparr>"

text \<open>
  What can happen to the manager, each at a time in milliseconds: the window is resized
  (the width changes and the \<open>resize\<close> event is dispatched), some code reads the
  configuration (\<open>GALLERY_CONFIG.current\<close> and every property read through the proxy
  call \<open>getResponsiveConfig\<close>), a subscriber is added or removed, or nothing but
  time passing. Before an event at time \<open>now\<close> is handled, a timer that is due runs.
\<close>

datatype action = ResizeTo real | ReadConfig nat | Subscribe nat | Unsubscribe nat | Idle

definition advance :: "nat \<Rightarrow> browser \<Rightarrow> browser" where
  "advance now w =
     (case debounceTimer (manager w) of
        Some due \<Rightarrow>
          (if due \<le> now
           then debounceCallback (w\<lparr>manager := (manager w)\<lparr>debounceTimer := None\<rparr>\<rparr>)
           else w)
      | None \<Rightarrow> w)"

fun perform :: "nat \<Rightarrow> action \<Rightarrow> browser \<Rightarrow> browser" where
  "perform now (ResizeTo width) w = resizeListener now (w\<lparr>innerWidth := width\<rparr>)"
| "perform now (ReadConfig n) w = snd (getResponsiveConfig w n)"
| "perform now (Subscribe cb) w = onResize w cb"
| "perform now (Unsubscribe cb) w = offResize w cb"
| "perform now Idle w = w"

fun run :: "browser \<Rightarrow> (nat \<times> action) list \<Rightarrow> browser" where
  "run w [] = w"
| "run w ((now, a) # es) = run (perform now a (advance now w)) es"

section \<open>MathUtils: positions on the circle, memoised\<close>

text \<open>
  A point \<open>{x, y}\<close>. Where the source divides by zero the result is not a finite
  number and every coordinate computed from it is \<open>NaN\<close>: \<open>NaNPosition\<close> is that
  point, and \<open>js_div\<close> returns \<open>None\<close> for the division that produces it.
\<close>

datatype position = Position real real | NaNPosition

definition js_div :: "real \<Rightarrow> real \<Rightarrow> real option" where
  "js_div a b = (if b = 0 then None else Some (a / b))"

text \<open>
  The cache keys \<open>`pos_${index}_${itemCount}`\<close> and \<open>`elem_${index}_${itemCount}`\<close>
  are their kind and their two numbers; the configuration key
  \<open>`${centerX}_${centerY}_${radius}_${itemSize}`\<close> is the tuple of its four numbers
  (a number prints without an underscore, so the strings determine the parts).
\<close>

datatype cache_key = PosKey int nat | ElemKey int nat

record MathUtils =
  positionCache :: "cache_key \<rightharpoonup> position"
  lastConfig :: "(real \<times> real \<times> real \<times> real) option"

definition MathUtils_init :: MathUtils where
  "MathUtils_init = \<lparr>positionCache = Map.empty, lastConfig = None\<rparr>"

definition configKey :: "config \<Rightarrow> real \<times> real \<times> real \<times> real" where
  "configKey c = (centerX c, centerY c, radius c, itemSize c)"

definition clearCacheIfNeeded :: "config \<Rightarrow> MathUtils \<Rightarrow> MathUtils" where
  "clearCacheIfNeeded c mu =
     (if lastConfig mu \<noteq> Some (configKey c)
      then \<lparr>positionCache = Map.empty, lastConfig = Some (configKey c)\<rparr>
      else mu)"

definition clearCache :: "MathUtils \<Rightarrow> MathUtils" where
  "clearCache mu = \<lparr>positionCache = Map.empty, lastConfig = None\<rparr>"

text \<open>
  \<open>totalItems || config.itemCount\<close>: the default is taken when the argument is
  \<open>undefined\<close> or \<open>0\<close>.
\<close>

definition js_or :: "nat option \<Rightarrow> nat \<Rightarrow> nat" where
  "js_or totalItems d = (case totalItems of None \<Rightarrow> d | Some n \<Rightarrow> if n = 0 then d else n)"

text \<open>
  \<open>getItemPosition\<close> and \<open>getItemElementPosition\<close> take the configuration that
  \<open>GALLERY_CONFIG.current\<close> yields at the call, and the static fields before the call;
  they give the returned point and the static fields after it. Neither has a
  \<open>throw\<close>: every path of the model ends in \<open>Inr\<close>. The index is not compared with
  the item count anywhere.
\<close>

definition getItemPosition ::
  "config \<Rightarrow> MathUtils \<Rightarrow> int \<Rightarrow> nat option \<Rightarrow> js_error + position \<times> MathUtils" where
  "getItemPosition c mu0 index totalItems =
     (let mu = clearCacheIfNeeded c mu0;
          n = js_or totalItems (itemCount c);
          cacheKey = PosKey index n
      in case positionCache mu cacheKey of
           Some p \<Rightarrow> Inr (p, mu)
         | None \<Rightarrow>
             (let p = (case js_div (real_of_int index) (real n) of
                         None \<Rightarrow> NaNPosition
                       | Some q \<Rightarrow>
                           (let angle = q * pi * 2
                            in Position (centerX c + radius c * cos angle)
                                        (centerY c + radius c * sin angle)))
              in Inr (p, mu\<lparr>positionCache := (positionCache mu)(cacheKey \<mapsto> p)\<rparr>)))"

definition getItemElementPosition ::
  "config \<Rightarrow> MathUtils \<Rightarrow> int \<Rightarrow> nat option \<Rightarrow> js_error + position \<times> MathUtils" where
  "getItemElementPosition c mu0 index totalItems =
     (let mu = clearCacheIfNeeded c mu0;
          n = js_or totalItems (itemCount c);
          cacheKey = ElemKey index n
      in case positionCache mu cacheKey of
           Some p \<Rightarrow> Inr (p, mu)
         | None \<Rightarrow>
             (case getItemPosition c mu index (Some n) of
                Inl e \<Rightarrow> Inl e
              | Inr (centerPos, mu') \<Rightarrow>
                  (let offset = itemSize c / 2;
                       p = (case centerPos of
                              NaNPosition \<Rightarrow> NaNPosition
                            | Position x y \<Rightarrow> Position (x - offset) (y - offset))
                   in Inr (p, mu'\<lparr>positionCache := (positionCache mu')(cacheKey \<mapsto> p)\<rparr>))))"

text \<open>\<open>itemCount % 2 === 0 && diff === itemCount / 2\<close>, the division being that of numbers.\<close>

definition isDiagonalPair :: "config \<Rightarrow> int \<Rightarrow> int \<Rightarrow> nat option \<Rightarrow> bool" where
  "isDiagonalPair c index1 index2 totalItems =
     (let n = js_or totalItems (itemCount c);
          diff = \<bar>index1 - index2\<bar>
      in n mod 2 = 0 \<and> real_of_int diff = real n / 2)"

fun getMidpoint :: "position \<Rightarrow> position \<Rightarrow> position" where
  "getMidpoint (Position x1 y1) (Position x2 y2) = Position ((x1 + x2) / 2) ((y1 + y2) / 2)"
| "getMidpoint _ _ = NaNPosition"

text \<open>
  \<open>normalizeVector\<close> returns the zero vector for a vector of length \<open>0\<close> and divides
  otherwise. With \<open>NaN\<close> coordinates the length is \<open>NaN\<close>, which is not \<open>=== 0\<close>,
  and the quotients are \<open>NaN\<close>.
\<close>

fun normalizeVector :: "position \<Rightarrow> position" where
  "normalizeVector (Position x y) =
     (let len = sqrt (x * x + y * y)
      in if len = 0 then Position 0 0
         else (case (js_div x len, js_div y len) of
                 (Some u, Some v) \<Rightarrow> Position u v
               | _ \<Rightarrow> NaNPosition))"
| "normalizeVector NaNPosition = NaNPosition"

text \<open>The third argument is \<open>None\<close> when \<open>heightRatio\<close> is \<open>undefined\<close>.\<close>

definition getArcControlPoint :: "config \<Rightarrow> position \<Rightarrow> position \<Rightarrow> real option \<Rightarrow> position" where
  "getArcControlPoint c point1 point2 heightRatio =
     (let ratio = (case heightRatio of Some h \<Rightarrow> h | None \<Rightarrow> arcHeightRatio c);
          midpoint = getMidpoint point1 point2;
          centerVector = (case midpoint of
                            Position mx my \<Rightarrow> Position (centerX c - mx) (centerY c - my)
                          | NaNPosition \<Rightarrow> NaNPosition);
          normalizedVector = normalizeVector centerVector;
          arcHeight = radius c * ratio
      in case (midpoint, normalizedVector) of
           (Position mx my, Position nx ny) \<Rightarrow> Position (mx + nx * arcHeight) (my + ny * arcHeight)
         | _ \<Rightarrow> NaNPosition)"

text \<open>
  A run of the engine: position queries, each under the configuration that is current
  when it is made, and calls of \<open>clearCache()\<close>. \<open>answers\<close> collects what the queries
  return, \<open>state_after\<close> is the static state the run leaves.
\<close>

datatype query = CirclePos int "nat option" | ElementPos int "nat option"

datatype step = Query config query | ClearCache

fun run_query :: "config \<Rightarrow> MathUtils \<Rightarrow> query \<Rightarrow> js_error + position \<times> MathUtils" where
  "run_query c mu (CirclePos index totalItems) = getItemPosition c mu index totalItems"
| "run_query c mu (ElementPos index totalItems) = getItemElementPosition c mu index totalItems"

fun answers :: "MathUtils \<Rightarrow> step list \<Rightarrow> (js_error + position) list" where
  "answers mu [] = []"
| "answers mu (ClearCache # ss) = answers (clearCache mu) ss"
| "answers mu (Query c q # ss) =
     (case run_query c mu q of
        Inl e \<Rightarrow> Inl e # answers mu ss
      | Inr (p, mu') \<Rightarrow> Inr p # answers mu' ss)"

fun state_after :: "MathUtils \<Rightarrow> step list \<Rightarrow> MathUtils" where
  "state_after mu [] = mu"
| "state_after mu (ClearCache # ss) = state_after (clearCache mu) ss"
| "state_after mu (Query c q # ss) =
     (case run_query c mu q of
        Inl e \<Rightarrow> state_after mu ss
      | Inr (p, mu') \<Rightarrow> state_after mu' ss)"

section \<open>PathManager: the connectors and their states\<close>

text \<open>The values of \<open>PATH_STATES\<close>.\<close>

definition PINK_SOLID :: nat where "PINK_SOLID = 0"

definition GREEN_SOLID :: nat where "GREEN_SOLID = 1"

definition TRANSPARENT :: nat where "TRANSPARENT = 2"

text \<open>
  The path data string: \<open>M p1 L p2\<close> is a straight segment, \<open>M p1 Q cp p2\<close> a
  quadratic curve with control point \<open>cp\<close>. A path element is a DOM object; two
  elements are the same object exactly when their \<open>elemId\<close> agree, and \<open>created\<close>
  counts the elements made so far, so that each new one is fresh.
\<close>

datatype pathData = LinearPath position position | ArcPath position position position

record pathElement =
  elemId :: nat
  attr_d :: pathData
  dataFrom :: int
  dataTo :: int

record lineData =
  element :: pathElement
  line_from :: int
  line_to :: int
  state :: nat

record PathManager =
  connectionLines :: "lineData list"
  isEnabled :: bool
  created :: nat

definition PathManager_new :: "bool \<Rightarrow> PathManager" where
  "PathManager_new hasSvg = \<lparr>connectionLines = [], isEnabled = hasSvg, created = 0\<rparr>"

definition createLinearPath :: "position \<Rightarrow> position \<Rightarrow> pathData" where
  "createLinearPath pos1 pos2 = LinearPath pos1 pos2"

definition createArcPath :: "config \<Rightarrow> position \<Rightarrow> position \<Rightarrow> pathData" where
  "createArcPath c pos1 pos2 =
     ArcPath pos1 (getArcControlPoint c pos1 pos2 (Some (arcHeightRatio c))) pos2"

text \<open>
  \<open>createSingleLine\<close> works on the static state of \<open>MathUtils\<close> and on the manager.
  Its body is in a \<open>try\<close>: an exception leaves the lines as they are.
\<close>

definition createSingleLine ::
  "config \<Rightarrow> int \<Rightarrow> int \<Rightarrow> MathUtils \<times> PathManager \<Rightarrow> MathUtils \<times> PathManager" where
  "createSingleLine c index1 index2 s =
     (let mu = fst s; pm = snd s
      in if \<not> isEnabled pm then s
         else (let n = itemCount c
               in case getItemPosition c mu index1 (Some n) of
                    Inl e \<Rightarrow> s
                  | Inr (pos1, mu1) \<Rightarrow>
                      (case getItemPosition c mu1 index2 (Some n) of
                         Inl e \<Rightarrow> (mu1, pm)
                       | Inr (pos2, mu2) \<Rightarrow>
                           (let d = (if isDiagonalPair c index1 index2 (Some n)
                                     then createLinearPath pos1 pos2
                                     else createArcPath c pos1 pos2);
                                el = \<lparr>elemId = created pm, attr_d = d,
                                      dataFrom = index1, dataTo = index2\<rparr>;
                                l = \<lparr>element = el, line_from = index1, line_to = index2,
                                     state = TRANSPARENT\<rparr>
                            in (mu2, pm\<lparr>connectionLines := connectionLines pm @ [l],
                                        created := Suc (created pm)\<rparr>)))))"

definition createConnectionLines ::
  "config \<Rightarrow> (int \<times> int) list \<Rightarrow> MathUtils \<times> PathManager \<Rightarrow> MathUtils \<times> PathManager" where
  "createConnectionLines c connections s =
     (if \<not> isEnabled (snd s) then s
      else if connections = [] then s
      else fold (\<lambda>conn. createSingleLine c (fst conn) (snd conn)) connections s)"

definition clearConnections :: "PathManager \<Rightarrow> PathManager" where
  "clearConnections pm = pm\<lparr>connectionLines := []\<rparr>"

text \<open>
  \<open>togglePathState\<close>: \<open>find\<close> takes the first line whose element is the given one, and
  the \<open>switch\<close> rewrites its state; without such a line nothing changes.
\<close>

fun toggleFirst :: "nat \<Rightarrow> lineData list \<Rightarrow> lineData list" where
  "toggleFirst e [] = []"
| "toggleFirst e (l # ls) =
     (if elemId (element l) = e
      then l\<lparr>state := (if state l = TRANSPARENT then PINK_SOLID
                       else if state l = PINK_SOLID then GREEN_SOLID
                       else if state l = GREEN_SOLID then TRANSPARENT
                       else TRANSPARENT)\<rparr> # ls
      else l # toggleFirst e ls)"

definition togglePathState :: "PathManager \<Rightarrow> nat \<Rightarrow> PathManager" where
  "togglePathState pm e = pm\<lparr>connectionLines := toggleFirst e (connectionLines pm)\<rparr>"

definition resetAllPaths :: "PathManager \<Rightarrow> PathManager" where
  "resetAllPaths pm =
     (if \<not> isEnabled pm then pm
      else pm\<lparr>connectionLines := map (\<lambda>l. l\<lparr>state := TRANSPARENT\<rparr>) (connectionLines pm)\<rparr>)"

text \<open>
  \<open>_rebuildAllPaths\<close>. The key \<open>`${from}-${to}`\<close> is the pair of its numbers;
  \<open>storeStates\<close> is the loop filling the \<open>Map\<close>, a later line overwriting an earlier
  one with the same key.
\<close>

definition lineKey :: "lineData \<Rightarrow> int \<times> int" where
  "lineKey l = (line_from l, line_to l)"

definition storeStates :: "lineData list \<Rightarrow> (int \<times> int \<rightharpoonup> nat)" where
  "storeStates ls = fold (\<lambda>l m. m(lineKey l \<mapsto> state l)) ls Map.empty"

definition completeConnections :: "nat \<Rightarrow> (int \<times> int) list" where
  "completeConnections n =
     fold (\<lambda>i acc. fold (\<lambda>j acc'. acc' @ [(int i, int j)]) [Suc i..<n] acc) [0..<n] []"

definition restoreStates :: "(int \<times> int \<rightharpoonup> nat) \<Rightarrow> lineData list \<Rightarrow> lineData list" where
  "restoreStates currentStates ls =
     map (\<lambda>l. case currentStates (lineKey l) of Some s \<Rightarrow> l\<lparr>state := s\<rparr> | None \<Rightarrow> l) ls"

definition rebuildAllPaths :: "config \<Rightarrow> MathUtils \<times> PathManager \<Rightarrow> MathUtils \<times> PathManager" where
  "rebuildAllPaths c s =
     (if \<not> isEnabled (snd s) then s
      else (let currentStates = storeStates (connectionLines (snd s));
                s1 = (fst s, clearConnections (snd s));
                connections = completeConnections (itemCount c);
                s2 = createConnectionLines c connections s1
            in (fst s2, (snd s2)\<lparr>connectionLines :=
                           restoreStates currentStates (connectionLines (snd s2))\<rparr>)))"

text \<open>
  The managers a program can hold: a new one, and what the methods make of one. The
  methods that create lines take any configuration and any state of \<open>MathUtils\<close>.
\<close>

inductive reachable :: "PathManager \<Rightarrow> bool" where
  r_new: "reachable (PathManager_new hasSvg)"
| r_createSingleLine: "reachable pm \<Longrightarrow> reachable (snd (createSingleLine c i j (mu, pm)))"
| r_createConnectionLines:
    "reachable pm \<Longrightarrow> reachable (snd (createConnectionLines c conns (mu, pm)))"
| r_toggle: "reachable pm \<Longrightarrow> reachable (togglePathState pm e)"
| r_reset: "reachable pm \<Longrightarrow> reachable (resetAllPaths pm)"
| r_clear: "reachable pm \<Longrightarrow> reachable (clearConnections pm)"
| r_rebuild: "reachable pm \<Longrightarrow> reachable (snd (rebuildAllPaths c (mu, pm)))"

section \<open>GSAPGalleryViewer: the item count and the connectors of the page\<close>

text \<open>
  \<open>DOMUtils.generateGalleryItems\<close> empties the gallery container and appends one
  \<open>.gallery-item\<close> for every \<open>i < GALLERY_CONFIG.itemCount\<close> that has an entry in
  \<open>itemData\<close>; an index without an entry is skipped with a warning. The static
  \<open>itemData\<close> has twelve entries, all of them objects. The result is the list of the
  \<open>data-index\<close> values of the items appended.
\<close>

definition itemData_length :: nat where
  "itemData_length = 12"

definition generateGalleryItems :: "config \<Rightarrow> nat list" where
  "generateGalleryItems c = filter (\<lambda>i. i < itemData_length) [0..<itemCount c]"

text \<open>
  \<open>initializeProperties\<close> and \<open>initializeManagers\<close>, as far as the graph goes:
  \<open>this.itemCount = Math.min(this.elements.galleryItems.length, this.currentConfig.itemCount)\<close>,
  \<open>throw new Error('No gallery items found')\<close> when that is \<open>0\<close>, then
  \<open>new GraphManager(this.itemCount)\<close>. The first argument is the number of
  \<open>.gallery-item\<close> elements of the document.
\<close>

datatype viewer_error = NoGalleryItemsFound | ManagerError js_error

definition viewerItemCount :: "nat \<Rightarrow> config \<Rightarrow> nat" where
  "viewerItemCount galleryItems c = min galleryItems (itemCount c)"

definition viewerGraph :: "nat \<Rightarrow> config \<Rightarrow> viewer_error + GraphManager" where
  "viewerGraph galleryItems c =
     (let n = viewerItemCount galleryItems c
      in if n = 0 then Inl NoGalleryItemsFound
         else (case GraphManager_new n (itemCount c) of
                 Inl e \<Rightarrow> Inl (ManagerError e)
               | Inr g \<Rightarrow> Inr g))"

text \<open>
  \<open>setupConnectionLines\<close>: \<open>this.pathManager.createConnectionLines(this.graphManager.getConnections())\<close>.
  The configuration is the one \<open>GALLERY_CONFIG.current\<close> returns inside
  \<open>createSingleLine\<close>.
\<close>

definition setupConnectionLines ::
  "config \<Rightarrow> GraphManager \<Rightarrow> MathUtils \<times> PathManager \<Rightarrow> MathUtils \<times> PathManager" where
  "setupConnectionLines c g s =
     createConnectionLines c (map (\<lambda>p. (int (fst p), int (snd p))) (getConnections g)) s"

section \<open>Notions of the specification and of the proofs\<close>

subsection \<open>Graph\<close>

text \<open>
  A matrix with \<open>n\<close> rows of length \<open>n\<close>, a manager whose count and matrix agree, and
  the canonical enumeration of the pairs \<open>i < j < n\<close>.
\<close>

definition square :: "nat \<Rightarrow> nat list list \<Rightarrow> bool" where
  "square n m \<longleftrightarrow> length m = n \<and> (\<forall>r \<in> set m. length r = n)"

definition wfG :: "nat \<Rightarrow> GraphManager \<Rightarrow> bool" where
  "wfG n g \<longleftrightarrow> imageCount g = n \<and> square n (adjacencyMatrix g)"

definition upperTriangle :: "nat \<Rightarrow> (nat \<times> nat) list" where
  "upperTriangle n = concat (map (\<lambda>i. map (Pair i) [Suc i..<n]) [0..<n])"

subsection \<open>Breakpoints\<close>

text \<open>The width range a tier declares: from its \<open>min\<close>, if it has one, to its \<open>max\<close>, if it has one.\<close>

definition in_range :: "breakpoint_t \<Rightarrow> real \<Rightarrow> bool" where
  "in_range b width \<longleftrightarrow>
     (case bp_min b of None \<Rightarrow> True | Some lo \<Rightarrow> lo \<le> width) \<and>
     (case bp_max b of None \<Rightarrow> True | Some hi \<Rightarrow> width \<le> hi)"

subsection \<open>Resize events in one debounce window\<close>

text \<open>
  A list of resize events \<open>(time, width)\<close> is coalesced when each arrives before the
  timer set by the one before it is due. \<open>settle_time\<close> is when the last timer is due,
  \<open>settled_width\<close> the width the window has then, and \<open>notifications\<close> what the
  subscribers of \<open>w\<close> are to receive for a settled width: nothing when its breakpoint
  has the name of the current one, one call each otherwise.
\<close>

fun coalesced :: "nat \<Rightarrow> (nat \<times> real) list \<Rightarrow> bool" where
  "coalesced due [] = True"
| "coalesced due ((t, x) # rs) = (t < due \<and> coalesced (t + 300) rs)"

fun settle_time :: "nat \<Rightarrow> (nat \<times> real) list \<Rightarrow> nat" where
  "settle_time due [] = due"
| "settle_time due ((t, x) # rs) = settle_time (t + 300) rs"

fun settled_width :: "real \<Rightarrow> (nat \<times> real) list \<Rightarrow> real" where
  "settled_width x0 [] = x0"
| "settled_width x0 ((t, x) # rs) = settled_width x rs"

definition resizes :: "(nat \<times> real) list \<Rightarrow> (nat \<times> action) list" where
  "resizes rs = map (\<lambda>r. (fst r, ResizeTo (snd r))) rs"

definition notifications :: "browser \<Rightarrow> real \<Rightarrow> (nat \<times> breakpoint_t) list" where
  "notifications w x =
     (if map_option bp_name (currentBreakpoint (manager w)) = Some (bp_name (getBreakpoint x)) then []
      else map (\<lambda>cb. (cb, getBreakpoint x)) (resizeCallbacks (manager w)))"

subsection \<open>Positions\<close>

text \<open>
  The specification's \<open>circlePosition(index, totalItems, config)\<close>:
  \<open>center + radius (cos \<theta>, sin \<theta>)\<close> with \<open>\<theta> = 2 \<pi> index / totalItems\<close>.
\<close>

definition circlePosition :: "int \<Rightarrow> nat \<Rightarrow> config \<Rightarrow> position" where
  "circlePosition index totalItems c =
     Position (centerX c + radius c * cos (2 * pi * real_of_int index / real totalItems))
              (centerY c + radius c * sin (2 * pi * real_of_int index / real totalItems))"

text \<open>
  What a query yields when it is computed anew under a configuration, with no cache:
  the circle position, the anchor position (the circle position less half the item
  size), and the \<open>NaN\<close> point for an item count of \<open>0\<close>.
\<close>

definition positionFormula :: "config \<Rightarrow> int \<Rightarrow> nat \<Rightarrow> position" where
  "positionFormula c index n =
     (if n = 0 then NaNPosition
      else Position (centerX c + radius c * cos (2 * pi * real_of_int index / real n))
                    (centerY c + radius c * sin (2 * pi * real_of_int index / real n)))"

definition elementFormula :: "config \<Rightarrow> int \<Rightarrow> nat \<Rightarrow> position" where
  "elementFormula c index n =
     (case positionFormula c index n of
        NaNPosition \<Rightarrow> NaNPosition
      | Position x y \<Rightarrow> Position (x - itemSize c / 2) (y - itemSize c / 2))"

fun recomputed :: "config \<Rightarrow> query \<Rightarrow> position" where
  "recomputed c (CirclePos index totalItems) =
     positionFormula c index (js_or totalItems (itemCount c))"
| "recomputed c (ElementPos index totalItems) =
     elementFormula c index (js_or totalItems (itemCount c))"

fun recomputed_answers :: "step list \<Rightarrow> (js_error + position) list" where
  "recomputed_answers [] = []"
| "recomputed_answers (ClearCache # ss) = recomputed_answers ss"
| "recomputed_answers (Query c q # ss) = Inr (recomputed c q) # recomputed_answers ss"

text \<open>
  The invariant of the cache: it is empty while no configuration key is recorded, and
  every entry is the value computed under any configuration with the recorded key.
\<close>

fun cached_value :: "config \<Rightarrow> cache_key \<Rightarrow> position" where
  "cached_value c (PosKey index n) = positionFormula c index n"
| "cached_value c (ElemKey index n) = elementFormula c index n"

definition cache_inv :: "MathUtils \<Rightarrow> bool" where
  "cache_inv mu \<longleftrightarrow>
     (lastConfig mu = None \<longrightarrow> positionCache mu = Map.empty) \<and>
     (\<forall>c k p. lastConfig mu = Some (configKey c) \<longrightarrow> positionCache mu k = Some p \<longrightarrow>
        p = cached_value c k)"

subsection \<open>Connectors\<close>

text \<open>
  The three states, and the cycle \<open>Dim \<rightarrow> StateA \<rightarrow> StateB \<rightarrow> Dim\<close> of the
  specification, \<open>Dim\<close> being \<open>TRANSPARENT\<close>, \<open>StateA\<close> \<open>PINK_SOLID\<close> and \<open>StateB\<close>
  \<open>GREEN_SOLID\<close>.
\<close>

definition validState :: "nat \<Rightarrow> bool" where
  "validState s \<longleftrightarrow> s = PINK_SOLID \<or> s = GREEN_SOLID \<or> s = TRANSPARENT"

definition nextState :: "nat \<Rightarrow> nat" where
  "nextState s =
     (if s = TRANSPARENT then PINK_SOLID
      else if s = PINK_SOLID then GREEN_SOLID
      else TRANSPARENT)"

text \<open>The invariant of a manager: elements are pairwise distinct objects, states are valid.\<close>

definition pm_inv :: "PathManager \<Rightarrow> bool" where
  "pm_inv pm \<longleftrightarrow>
     distinct (map (\<lambda>l. elemId (element l)) (connectionLines pm)) \<and>
     (\<forall>l \<in> set (connectionLines pm). elemId (element l) < created pm \<and> validState (state l))"

text \<open>The line \<open>createSingleLine\<close> pushes, given the two positions it has computed.\<close>

definition newLine :: "config \<Rightarrow> nat \<Rightarrow> int \<Rightarrow> int \<Rightarrow> position \<Rightarrow> position \<Rightarrow> lineData" where
  "newLine c k i j p1 p2 =
     \<lparr>element = \<lparr>elemId = k,
                  attr_d = (if isDiagonalPair c i j (Some (itemCount c))
                            then createLinearPath p1 p2 else createArcPath c p1 p2),
                  dataFrom = i, dataTo = j\<rparr>,
      line_from = i, line_to = j, state = TRANSPARENT\<rparr>"

fun is_linear :: "pathData \<Rightarrow> bool" where
  "is_linear (LinearPath _ _) = True"
| "is_linear (ArcPath _ _ _) = False"

fun is_quadratic :: "pathData \<Rightarrow> bool" where
  "is_quadratic (LinearPath _ _) = False"
| "is_quadratic (ArcPath _ _ _) = True"

text \<open>What the theorems observe of a line: its key, its state, whether it is drawn straight.\<close>

definition summary :: "lineData \<Rightarrow> (int \<times> int) \<times> nat \<times> bool" where
  "summary l = (lineKey l, state l, is_linear (attr_d (element l)))"

text \<open>
  The state an edge set records for a key: that of its last line with the key, if it
  has one.
\<close>

definition previousState :: "lineData list \<Rightarrow> int \<times> int \<Rightarrow> nat option" where
  "previousState ls k = map_option state (List.find (\<lambda>l. lineKey l = k) (rev ls))"

text \<open>A manager with three lines in three states, for the examples.\<close>

definition demo_line :: "int \<Rightarrow> int \<Rightarrow> nat \<Rightarrow> nat \<Rightarrow> lineData" where
  "demo_line i j k s =
     \<lparr>element = \<lparr>elemId = k, attr_d = LinearPath (Position 0 0) (Position 1 1),
                  dataFrom = i, dataTo = j\<rparr>,
      line_from = i, line_to = j, state = s\<rparr>"

definition demo_manager :: PathManager where
  "demo_manager =
     \<lparr>connectionLines = [demo_line 0 1 0 GREEN_SOLID, demo_line 0 2 1 PINK_SOLID,
                          demo_line 1 2 2 TRANSPARENT],
      isEnabled = True, created = 3\<rparr>"

text \<open>
  The line \<open>createSingleLine\<close> pushes for a connection, with the two positions written
  out: both are positions on the circle of the configured item count.
\<close>

definition exactLine :: "config \<Rightarrow> nat \<Rightarrow> int \<times> int \<Rightarrow> lineData" where
  "exactLine c k conn =
     newLine c k (fst conn) (snd conn)
       (positionFormula c (fst conn) (itemCount c)) (positionFormula c (snd conn) (itemCount c))"

text \<open>
  A pair together with the path of the straight segment, and with the path of the
  quadratic curve, between its two positions on the circle of \<open>n\<close> items.
\<close>

definition straightLine :: "config \<Rightarrow> nat \<Rightarrow> int \<times> int \<Rightarrow> (int \<times> int) \<times> pathData" where
  "straightLine c n p =
     (p, LinearPath (circlePosition (fst p) n c) (circlePosition (snd p) n c))"

definition curvedLine :: "config \<Rightarrow> nat \<Rightarrow> int \<times> int \<Rightarrow> (int \<times> int) \<times> pathData" where
  "curvedLine c n p =
     (p, ArcPath (circlePosition (fst p) n c)
           (getArcControlPoint c (circlePosition (fst p) n c) (circlePosition (snd p) n c)
              (Some (arcHeightRatio c)))
           (circlePosition (snd p) n c))"

text \<open>
  The configuration of a desktop window after \<open>GALLERY_CONFIG.itemCount = 14\<close>.
\<close>

definition desktop_fourteen :: config where
  "desktop_fourteen = calculateConfig DESKTOP 14"

section \<open>The complete graph and its connections\<close>

lemma if_chain_or: "(if P then x else if Q then x else y) = (if P \<or> Q then x else y)"
  by simp

lemma square_nth_length: "square n m \<Longrightarrow> i < n \<Longrightarrow> length (m ! i) = n"
  by (simp add: square_def)

lemma square_initializeMatrix: "square n (initializeMatrix n)"
  by (simp add: square_def initializeMatrix_def)

lemma set_cell_square:
  "square n m \<Longrightarrow> i < n \<Longrightarrow> j < n \<Longrightarrow> square n (set_cell m i j v)"
  by (auto simp: square_def set_cell_def js_store_def dest!: set_update_subset_insert[THEN subsetD])

lemma set_cell_nth:
  "square n m \<Longrightarrow> i < n \<Longrightarrow> j < n \<Longrightarrow> a < n \<Longrightarrow> b < n \<Longrightarrow>
   set_cell m i j v ! a ! b = (if a = i \<and> b = j then v else m ! a ! b)"
  by (auto simp: square_def set_cell_def js_store_def nth_list_update)

lemma set_cell_same:
  "square n m \<Longrightarrow> i < n \<Longrightarrow> j < n \<Longrightarrow> m ! i ! j = v \<Longrightarrow> set_cell m i j v = m"
proof -
  assume sq: "square n m" and i: "i < n" and j: "j < n" and v: "m ! i ! j = v"
  have len: "length (m ! i) = n" using sq i by (rule square_nth_length)
  have "(m ! i)[j := v] = m ! i" using v by auto
  then show ?thesis using sq i j len by (simp add: set_cell_def js_store_def square_def)
qed

lemma clearDiagonal_initializeMatrix:
  "\<forall>i \<in> set is. i < n \<Longrightarrow> clearDiagonal is (initializeMatrix n) = Inr (initializeMatrix n)"
proof (induction "is")
  case Nil
  then show ?case by simp
next
  case (Cons i "is")
  then have "i < n" by simp
  then have "set_cell (initializeMatrix n) i i 0 = initializeMatrix n"
    by (intro set_cell_same[OF square_initializeMatrix]) (simp_all add: initializeMatrix_def)
  with Cons show ?case by (simp add: initializeMatrix_def)
qed

lemma addEdge_wfG:
  assumes "wfG n g" "i < n" "j < n" "i \<noteq> j"
  shows "wfG n (addEdge g (int i) (int j))"
  using assms
  by (simp add: wfG_def addEdge_def isValidEdge_def set_cell_square)

lemma addEdge_cell:
  assumes "wfG n g" "i < n" "j < n" "i \<noteq> j" "a < n" "b < n"
  shows "adjacencyMatrix (addEdge g (int i) (int j)) ! a ! b =
         (if (a = i \<and> b = j) \<or> (a = j \<and> b = i) then 1 else adjacencyMatrix g ! a ! b)"
proof -
  from assms have sq: "square n (adjacencyMatrix g)" and len: "length (adjacencyMatrix g) = n"
    by (simp_all add: wfG_def square_def)
  have sq': "square n (set_cell (adjacencyMatrix g) i j 1)"
    using sq assms by (simp add: set_cell_square)
  have A: "set_cell (set_cell (adjacencyMatrix g) i j 1) j i 1 ! a ! b =
        (if a = j \<and> b = i then 1 else set_cell (adjacencyMatrix g) i j 1 ! a ! b)"
    using assms by (intro set_cell_nth[OF sq']) simp_all
  have B: "set_cell (adjacencyMatrix g) i j 1 ! a ! b =
        (if a = i \<and> b = j then 1 else adjacencyMatrix g ! a ! b)"
    using assms by (intro set_cell_nth[OF sq]) simp_all
  have "set_cell (set_cell (adjacencyMatrix g) i j 1) j i 1 ! a ! b =
        (if (a = i \<and> b = j) \<or> (a = j \<and> b = i) then 1 else adjacencyMatrix g ! a ! b)"
    unfolding A B if_chain_or by (rule if_cong) (blast, simp_all)
  moreover have "isValidEdge g (int i) (int j)"
    using assms len by (simp add: isValidEdge_def)
  ultimately show ?thesis by (simp add: addEdge_def)
qed

lemma fold_addEdge:
  assumes "wfG n g" "i < n" "\<forall>j \<in> set js. j < n \<and> j \<noteq> i"
  shows "wfG n (fold (\<lambda>j g'. addEdge g' (int i) (int j)) js g) \<and>
         (\<forall>a < n. \<forall>b < n.
            adjacencyMatrix (fold (\<lambda>j g'. addEdge g' (int i) (int j)) js g) ! a ! b =
            (if (a = i \<and> b \<in> set js) \<or> (b = i \<and> a \<in> set js) then 1
             else adjacencyMatrix g ! a ! b))"
  using assms
proof (induction js arbitrary: g)
  case Nil
  then show ?case by simp
next
  case (Cons j js)
  let ?g = "addEdge g (int i) (int j)"
  from Cons.prems have j: "j < n" "i \<noteq> j" by auto
  have wf: "wfG n ?g" using Cons.prems j by (simp add: addEdge_wfG)
  have rest: "\<forall>j \<in> set js. j < n \<and> j \<noteq> i" using Cons.prems by simp
  note IH = Cons.IH[OF wf Cons.prems(2) rest]
  show ?case
  proof (intro conjI allI impI)
    show "wfG n (fold (\<lambda>j g'. addEdge g' (int i) (int j)) (j # js) g)"
      using IH by simp
  next
    fix a b assume ab: "a < n" "b < n"
    have A: "adjacencyMatrix (fold (\<lambda>j g'. addEdge g' (int i) (int j)) (j # js) g) ! a ! b =
          (if (a = i \<and> b \<in> set js) \<or> (b = i \<and> a \<in> set js) then 1
           else adjacencyMatrix ?g ! a ! b)"
      using IH ab by simp
    have B: "adjacencyMatrix ?g ! a ! b =
          (if (a = i \<and> b = j) \<or> (a = j \<and> b = i) then 1 else adjacencyMatrix g ! a ! b)"
      using addEdge_cell[OF Cons.prems(1) Cons.prems(2) j(1) j(2) ab] .
    show "adjacencyMatrix (fold (\<lambda>j g'. addEdge g' (int i) (int j)) (j # js) g) ! a ! b =
          (if (a = i \<and> b \<in> set (j # js)) \<or> (b = i \<and> a \<in> set (j # js)) then 1
           else adjacencyMatrix g ! a ! b)"
      unfolding A B if_chain_or by (rule if_cong) (auto simp del: One_nat_def)
  qed
qed

lemma connectRow_spec:
  assumes "wfG n g" "i < n"
  shows "wfG n (connectRow i g) \<and>
         (\<forall>a < n. \<forall>b < n.
            adjacencyMatrix (connectRow i g) ! a ! b =
            (if (a = i \<and> i < b) \<or> (b = i \<and> i < a) then 1 else adjacencyMatrix g ! a ! b))"
proof -
  have n: "imageCount g = n" using assms by (simp add: wfG_def)
  have "\<forall>j \<in> set [Suc i..<n]. j < n \<and> j \<noteq> i" by auto
  from fold_addEdge[OF assms this] show ?thesis
    by (simp add: connectRow_def n) 
qed

lemma fold_connectRow:
  assumes "wfG n g" "\<forall>i \<in> set is. i < n"
  shows "wfG n (fold connectRow is g) \<and>
         (\<forall>a < n. \<forall>b < n.
            adjacencyMatrix (fold connectRow is g) ! a ! b =
            (if (a \<in> set is \<and> a < b) \<or> (b \<in> set is \<and> b < a) then 1
             else adjacencyMatrix g ! a ! b))"
  using assms
proof (induction "is" arbitrary: g)
  case Nil
  then show ?case by simp
next
  case (Cons i "is")
  from Cons.prems have i: "i < n" by simp
  note R = connectRow_spec[OF Cons.prems(1) i]
  have rest: "\<forall>i \<in> set is. i < n" using Cons.prems by simp
  note IH = Cons.IH[OF conjunct1[OF R] rest]
  show ?case
  proof (intro conjI allI impI)
    show "wfG n (fold connectRow (i # is) g)" using IH by simp
  next
    fix a b assume ab: "a < n" "b < n"
    have A: "adjacencyMatrix (fold connectRow (i # is) g) ! a ! b =
          (if (a \<in> set is \<and> a < b) \<or> (b \<in> set is \<and> b < a) then 1
           else adjacencyMatrix (connectRow i g) ! a ! b)"
      using IH ab by simp
    have B: "adjacencyMatrix (connectRow i g) ! a ! b =
          (if (a = i \<and> i < b) \<or> (b = i \<and> i < a) then 1 else adjacencyMatrix g ! a ! b)"
      using R ab by simp
    show "adjacencyMatrix (fold connectRow (i # is) g) ! a ! b =
          (if (a \<in> set (i # is) \<and> a < b) \<or> (b \<in> set (i # is) \<and> b < a) then 1
           else adjacencyMatrix g ! a ! b)"
      unfolding A B if_chain_or by (rule if_cong) (auto simp del: One_nat_def)
  qed
qed

lemma setupCompleteGraph_fresh:
  "\<exists>g. setupCompleteGraph \<lparr>imageCount = n, adjacencyMatrix = initializeMatrix n\<rparr> = Inr g \<and>
       wfG n g \<and>
       (\<forall>a < n. \<forall>b < n. adjacencyMatrix g ! a ! b = (if a \<noteq> b then 1 else 0))"
proof -
  let ?g0 = "\<lparr>imageCount = n, adjacencyMatrix = initializeMatrix n\<rparr>"
  have cd: "clearDiagonal [0..<n] (initializeMatrix n) = Inr (initializeMatrix n)"
    by (rule clearDiagonal_initializeMatrix) simp
  have wf0: "wfG n ?g0" by (simp add: wfG_def square_initializeMatrix)
  have "\<forall>i \<in> set [0..<n]. i < n" by simp
  note F = fold_connectRow[OF wf0 this]
  have eq: "setupCompleteGraph ?g0 = Inr (fold connectRow [0..<n] ?g0)"
    by (simp add: setupCompleteGraph_def cd connectAll_def)
  have cells: "\<forall>a < n. \<forall>b < n.
      adjacencyMatrix (fold connectRow [0..<n] ?g0) ! a ! b = (if a \<noteq> b then 1 else 0)"
    using F by (auto simp: initializeMatrix_def)
  show ?thesis using eq F cells by blast
qed

text \<open>The constructor and \<open>updateItemCount\<close> build the graph on a fresh matrix.\<close>

lemma GraphManager_new_fresh:
  "0 < n \<Longrightarrow>
   GraphManager_new n d =
     setupCompleteGraph \<lparr>imageCount = n, adjacencyMatrix = initializeMatrix n\<rparr>"
  by (simp add: GraphManager_new_def)

lemma updateItemCount_fresh:
  "n \<noteq> imageCount g \<Longrightarrow>
   updateItemCount g n =
     setupCompleteGraph \<lparr>imageCount = n, adjacencyMatrix = initializeMatrix n\<rparr>"
  by (simp add: updateItemCount_def)

lemma fold_push:
  "fold (\<lambda>j acc'. if P j then acc' @ [f j] else acc') js acc = acc @ map f (filter P js)"
  by (induction js arbitrary: acc) simp_all

lemma connectionsOfRow_eq:
  "connectionsOfRow m i acc =
   acc @ map (Pair i) (filter (\<lambda>j. m ! i ! j = 1) [Suc i..<length (m ! i)])"
  unfolding connectionsOfRow_def by (rule fold_push)

lemma fold_rows:
  "fold (connectionsOfRow m) is acc =
   acc @ concat (map (\<lambda>i. map (Pair i) (filter (\<lambda>j. m ! i ! j = 1) [Suc i..<length (m ! i)])) is)"
  by (induction "is" arbitrary: acc) (simp_all add: connectionsOfRow_eq)

lemma getConnections_complete:
  assumes "wfG n g"
      and "\<forall>a < n. \<forall>b < n. adjacencyMatrix g ! a ! b = (if a \<noteq> b then 1 else 0)"
  shows "getConnections g = upperTriangle n"
proof -
  let ?m = "adjacencyMatrix g"
  have len: "length ?m = n" and sq: "square n ?m" using assms(1) by (simp_all add: wfG_def square_def)
  have row: "map (Pair i) (filter (\<lambda>j. ?m ! i ! j = 1) [Suc i..<length (?m ! i)]) =
             map (Pair i) [Suc i..<n]" if "i \<in> set [0..<n]" for i
  proof -
    from that have i: "i < n" by simp
    have l: "length (?m ! i) = n" using sq i by (rule square_nth_length)
    have "filter (\<lambda>j. ?m ! i ! j = 1) [Suc i..<n] = [Suc i..<n]"
      using assms(2) i by (intro filter_True) auto
    then show ?thesis by (simp add: l)
  qed
  have "getConnections g =
        concat (map (\<lambda>i. map (Pair i) (filter (\<lambda>j. ?m ! i ! j = 1) [Suc i..<length (?m ! i)])) [0..<n])"
    by (simp add: getConnections_def fold_rows len)
  also have "\<dots> = concat (map (\<lambda>i. map (Pair i) [Suc i..<n]) [0..<n])"
    by (rule arg_cong[where f = concat], rule map_cong[OF refl], rule row)
  finally show ?thesis by (simp add: upperTriangle_def)
qed

lemma set_upperTriangle: "set (upperTriangle n) = {(i, j). i < j \<and> j < n}"
proof (intro set_eqI iffI)
  fix p assume "p \<in> set (upperTriangle n)"
  then show "p \<in> {(i, j). i < j \<and> j < n}" by (auto simp: upperTriangle_def)
next
  fix p assume "p \<in> {(i, j). i < j \<and> j < n}"
  then obtain a b where p: "p = (a, b)" and ab: "a < b" "b < n" by auto
  have "(a, b) \<in> set (map (Pair a) [Suc a..<n])" using ab by simp
  moreover have "map (Pair a) [Suc a..<n] \<in> set (map (\<lambda>i. map (Pair i) [Suc i..<n]) [0..<n])"
    using ab by simp
  ultimately show "p \<in> set (upperTriangle n)"
    unfolding p upperTriangle_def set_concat by (rule UN_I[rotated])
qed

lemma distinct_rows:
  "distinct is \<Longrightarrow> distinct (concat (map (\<lambda>i. map (Pair i) [Suc i..<n]) is))"
  by (induction "is") (auto simp: distinct_map inj_on_def)

lemma distinct_upperTriangle: "distinct (upperTriangle n)"
  by (simp add: upperTriangle_def distinct_rows)

lemma length_upperTriangle_sum: "length (upperTriangle n) = (\<Sum>i<n. n - Suc i)"
  by (simp add: upperTriangle_def length_concat comp_def interv_sum_list_conv_sum_set_nat atLeast0LessThan)

lemma length_upperTriangle: "length (upperTriangle n) = n * (n - 1) div 2"
proof -
  have "(\<Sum>i<n. n - Suc i) = (\<Sum>i<n. i)" by (rule sum.nat_diff_reindex)
  also have "\<dots> = n * (n - 1) div 2"
    using Sum_Ico_nat[of 0 n] by (simp add: atLeast0LessThan)
  finally show ?thesis by (simp add: length_upperTriangle_sum)
qed

text \<open>
  Claim C1. For every item count \<open>n\<close>, building the complete graph on a fresh
  \<open>n \<times> n\<close> matrix succeeds, and \<open>getConnections\<close> then returns exactly
  \<open>n (n - 1) / 2\<close> pairs, each with \<open>from < to < n\<close>, no pair twice and no pair in
  both orders.
\<close>

theorem getConnections_complete_graph:
  "\<exists>g. setupCompleteGraph \<lparr>imageCount = n, adjacencyMatrix = initializeMatrix n\<rparr> = Inr g \<and>
       length (getConnections g) = n * (n - 1) div 2 \<and>
       (\<forall>p \<in> set (getConnections g). fst p < snd p \<and> snd p < n) \<and>
       distinct (getConnections g) \<and>
       (\<forall>p \<in> set (getConnections g). (snd p, fst p) \<notin> set (getConnections g))"
proof -
  obtain g where g: "setupCompleteGraph \<lparr>imageCount = n, adjacencyMatrix = initializeMatrix n\<rparr> = Inr g"
    and wf: "wfG n g"
    and cells: "\<forall>a < n. \<forall>b < n. adjacencyMatrix g ! a ! b = (if a \<noteq> b then 1 else 0)"
    using setupCompleteGraph_fresh[of n] by blast
  have eq: "getConnections g = upperTriangle n"
    using wf cells by (rule getConnections_complete)
  have "length (getConnections g) = n * (n - 1) div 2"
    by (simp add: eq length_upperTriangle)
  moreover have "\<forall>p \<in> set (getConnections g). fst p < snd p \<and> snd p < n"
    by (auto simp: eq set_upperTriangle)
  moreover have "distinct (getConnections g)"
    by (simp add: eq distinct_upperTriangle)
  moreover have "\<forall>p \<in> set (getConnections g). (snd p, fst p) \<notin> set (getConnections g)"
    by (auto simp: eq set_upperTriangle)
  ultimately show ?thesis using g by blast
qed

theorem getConnections_complete_graph_witness:
  "\<exists>g. setupCompleteGraph \<lparr>imageCount = 4, adjacencyMatrix = initializeMatrix 4\<rparr> = Inr g \<and>
       length (getConnections g) = 6 \<and> distinct (getConnections g)"
proof -
  obtain g where
    "setupCompleteGraph \<lparr>imageCount = 4, adjacencyMatrix = initializeMatrix 4\<rparr> = Inr g"
    "length (getConnections g) = 4 * (4 - 1) div 2" "distinct (getConnections g)"
    using getConnections_complete_graph[of 4] by blast
  then show ?thesis by (intro exI[of _ g]) simp
qed

text \<open>
  Claim C10. In a graph whose matrix has as many rows as the item count, for every pair
  of indices with \<open>i = j\<close> or with an index outside \<open>[0, N)\<close>, \<open>addEdge\<close> and
  \<open>removeEdge\<close> return the graph unchanged and \<open>areConnected\<close> is false. The three
  methods have no failing path on such a pair: the guard \<open>isValidEdge\<close> rejects it
  before the matrix is read.
\<close>

theorem invalid_edge_noop:
  assumes "length (adjacencyMatrix g) = imageCount g"
      and "i = j \<or> i < 0 \<or> j < 0 \<or> int (imageCount g) \<le> i \<or> int (imageCount g) \<le> j"
  shows "addEdge g i j = g \<and> removeEdge g i j = g \<and> areConnected g i j = False"
proof -
  have "\<not> isValidEdge g i j"
    using assms unfolding isValidEdge_def by linarith
  then show ?thesis
    by (simp add: addEdge_def removeEdge_def areConnected_def)
qed

theorem invalid_edge_noop_witness:
  "addEdge \<lparr>imageCount = 2, adjacencyMatrix = [[0, 1], [1, 0]]\<rparr> 0 5 =
     \<lparr>imageCount = 2, adjacencyMatrix = [[0, 1], [1, 0]]\<rparr> \<and>
   removeEdge \<lparr>imageCount = 2, adjacencyMatrix = [[0, 1], [1, 0]]\<rparr> (- 1) 1 =
     \<lparr>imageCount = 2, adjacencyMatrix = [[0, 1], [1, 0]]\<rparr> \<and>
   areConnected \<lparr>imageCount = 2, adjacencyMatrix = [[0, 1], [1, 0]]\<rparr> 1 1 = False"
  using invalid_edge_noop[of "\<lparr>imageCount = 2, adjacencyMatrix = [[0, 1], [1, 0]]\<rparr>" 0 5]
        invalid_edge_noop[of "\<lparr>imageCount = 2, adjacencyMatrix = [[0, 1], [1, 0]]\<rparr>" "- 1" 1]
        invalid_edge_noop[of "\<lparr>imageCount = 2, adjacencyMatrix = [[0, 1], [1, 0]]\<rparr>" 1 1]
  by simp

section \<open>Breakpoint detection\<close>

text \<open>
  Claim C6, for the widths a window has. \<open>window.innerWidth\<close> is an integer number of
  pixels. For every integer width, also a negative one, the tier that \<open>getBreakpoint\<close>
  selects declares a range that contains the width, and it is the only one of the three
  tiers that does.
\<close>

theorem getBreakpoint_integer_width:
  "in_range (getBreakpoint (real_of_int k)) (real_of_int k) \<and>
   (\<forall>b \<in> set BREAKPOINTS. in_range b (real_of_int k) \<longleftrightarrow> b = getBreakpoint (real_of_int k))"
  by (auto simp: getBreakpoint_def DESKTOP_def TABLET_def MOBILE_def in_range_def BREAKPOINTS_def)

text \<open>At the width 768 the tier is the tablet one, and no other range contains 768.\<close>

theorem getBreakpoint_integer_width_witness:
  "getBreakpoint 768 = TABLET \<and> in_range TABLET 768 \<and>
   \<not> in_range DESKTOP 768 \<and> \<not> in_range MOBILE 768"
  using getBreakpoint_integer_width[of 768]
  by (simp add: getBreakpoint_def DESKTOP_def TABLET_def MOBILE_def in_range_def BREAKPOINTS_def)

text \<open>
  Claim C6 as stated, for every non-negative real width, fails: the declared ranges
  leave out the widths between 480 and 481 and between 768 and 769. At 768.5 the
  selected tier is the mobile one, whose range ends at 480, and no range contains the
  width.
\<close>

theorem getBreakpoint_fractional_width:
  "getBreakpoint (1537 / 2) = MOBILE \<and> \<not> in_range (getBreakpoint (1537 / 2)) (1537 / 2) \<and>
   \<not> (\<exists>b \<in> set BREAKPOINTS. in_range b (1537 / 2))"
  by (simp add: getBreakpoint_def DESKTOP_def TABLET_def MOBILE_def in_range_def BREAKPOINTS_def)

section \<open>The debounced notification\<close>

lemma debounceCallback_delivered:
  "delivered (debounceCallback w) = delivered w @ notifications w (innerWidth w)"
  by (cases "currentBreakpoint (manager w)")
     (auto simp: debounceCallback_def notifications_def Let_def)

lemma notifications_cong:
  "currentBreakpoint (manager w') = currentBreakpoint (manager w) \<Longrightarrow>
   resizeCallbacks (manager w') = resizeCallbacks (manager w) \<Longrightarrow>
   notifications w' x = notifications w x"
  by (simp only: notifications_def)

lemma notifications_timer [simp]:
  "notifications (w\<lparr>manager := (manager w)\<lparr>debounceTimer := d\<rparr>\<rparr>) x = notifications w x"
  by (rule notifications_cong) simp_all

lemma notifications_resize [simp]:
  "notifications (resizeListener t (w\<lparr>innerWidth := y\<rparr>)) x = notifications w x"
  by (rule notifications_cong) (simp_all add: resizeListener_def)

lemma pending_resizes:
  assumes "debounceTimer (manager w) = Some due" and "coalesced due rs"
      and "settle_time due rs \<le> T"
  shows "delivered (run w (resizes rs @ [(T, Idle)])) =
         delivered w @ notifications w (settled_width (innerWidth w) rs)"
  using assms
proof (induction rs arbitrary: w due)
  case Nil
  then show ?case
    by (simp add: resizes_def advance_def debounceCallback_delivered)
next
  case (Cons r rs)
  obtain t x where r: "r = (t, x)" by (cases r)
  let ?w = "resizeListener t (w\<lparr>innerWidth := x\<rparr>)"
  from Cons.prems r have t: "t < due" and co: "coalesced (t + 300) rs"
    and st: "settle_time (t + 300) rs \<le> T" by simp_all
  have adv: "advance t w = w" using Cons.prems(1) t by (simp add: advance_def)
  have timer: "debounceTimer (manager ?w) = Some (t + 300)" by (simp add: resizeListener_def)
  have "delivered (run w (resizes (r # rs) @ [(T, Idle)])) =
        delivered (run ?w (resizes rs @ [(T, Idle)]))"
    by (simp add: resizes_def r adv)
  also have "\<dots> = delivered ?w @ notifications ?w (settled_width (innerWidth ?w) rs)"
    using timer co st by (rule Cons.IH)
  also have "\<dots> = delivered w @ notifications w (settled_width (innerWidth w) (r # rs))"
    by (simp add: r) (simp add: resizeListener_def)
  finally show ?case .
qed

text \<open>
  Resize events alone behave as claim C5 says: with no timer pending before the first
  of them, a coalesced sequence is answered, once the last timer is due, by
  \<open>notifications\<close> for the last width: nothing when its breakpoint has the name of the
  current one, and one call to each subscriber, in registration order, otherwise.
\<close>

lemma coalesced_resizes_notify:
  assumes "debounceTimer (manager w) = None" and "coalesced (t + 300) rs"
      and "settle_time (t + 300) rs \<le> T"
  shows "delivered (run w (resizes ((t, x) # rs) @ [(T, Idle)])) =
         delivered w @ notifications w (settled_width x rs)"
proof -
  let ?w = "resizeListener t (w\<lparr>innerWidth := x\<rparr>)"
  have adv: "advance t w = w" using assms(1) by (simp add: advance_def)
  have timer: "debounceTimer (manager ?w) = Some (t + 300)" by (simp add: resizeListener_def)
  have "delivered (run w (resizes ((t, x) # rs) @ [(T, Idle)])) =
        delivered (run ?w (resizes rs @ [(T, Idle)]))"
    by (simp add: resizes_def adv)
  also have "\<dots> = delivered ?w @ notifications ?w (settled_width (innerWidth ?w) rs)"
    using timer assms(2,3) by (rule pending_resizes)
  also have "\<dots> = delivered w @ notifications w (settled_width x rs)"
    by simp (simp add: resizeListener_def)
  finally show ?thesis .
qed

text \<open>
  Claim C5: after resize events coalesced in one debounce window, every subscriber is
  called exactly once, in registration order, when the window has settled on a
  breakpoint other than the one notified before, and not at all otherwise. The code
  loses the call in this run. The manager is initialised at width 1024 (desktop) and
  subscriber 1 registers. At 1000 ms the window is resized to 400 (mobile); at 1100 ms,
  inside the debounce window, the configuration is read; the timer is due at 1300 ms.
  \<open>getResponsiveConfig\<close> has by then stored the mobile breakpoint in
  \<open>_currentBreakpoint\<close>, the timer finds no change, and the subscriber is not called,
  although the window has settled on mobile and the breakpoint before was desktop.
  Without the read the same resize is notified once. When the window later returns to
  1024, the subscriber is told of desktop, the breakpoint it started from.
\<close>

theorem config_read_loses_notification:
  "currentBreakpoint (manager (RCM_init 1024)) = Some DESKTOP \<and>
   getBreakpoint 400 = MOBILE \<and>
   delivered (run (RCM_init 1024)
     [(0, Subscribe 1), (1000, ResizeTo 400), (1100, ReadConfig 8), (1300, Idle)]) = [] \<and>
   delivered (run (RCM_init 1024)
     [(0, Subscribe 1), (1000, ResizeTo 400), (1300, Idle)]) = [(1, MOBILE)] \<and>
   delivered (run (RCM_init 1024)
     [(0, Subscribe 1), (1000, ResizeTo 400), (1100, ReadConfig 8), (1300, Idle),
      (5000, ResizeTo 1024), (5300, Idle)]) = [(1, DESKTOP)]"
  by (simp add: RCM_init_def advance_def resizeListener_def onResize_def getResponsiveConfig_def
        getBreakpoint_def debounceCallback_def DESKTOP_def TABLET_def MOBILE_def Let_def)

section \<open>The position cache\<close>

lemma positionFormula_cong:
  "configKey c = configKey c' \<Longrightarrow> positionFormula c i n = positionFormula c' i n"
  by (simp add: configKey_def positionFormula_def)

lemma elementFormula_cong:
  "configKey c = configKey c' \<Longrightarrow> elementFormula c i n = elementFormula c' i n"
proof -
  assume k: "configKey c = configKey c'"
  then have "itemSize c = itemSize c'" by (simp add: configKey_def)
  then show ?thesis
    by (simp add: elementFormula_def positionFormula_cong[OF k] split: position.split)
qed

lemma cached_value_cong:
  "configKey c = configKey c' \<Longrightarrow> cached_value c k = cached_value c' k"
  by (cases k) (simp_all add: positionFormula_cong[of c c'] elementFormula_cong[of c c'])

lemma cache_inv_init: "cache_inv MathUtils_init"
  by (simp add: cache_inv_def MathUtils_init_def)

lemma cache_inv_clearCache: "cache_inv (clearCache mu)"
  by (simp add: cache_inv_def clearCache_def)

lemma clearCacheIfNeeded_inv:
  "cache_inv mu \<Longrightarrow> cache_inv (clearCacheIfNeeded c mu)"
  by (simp add: cache_inv_def clearCacheIfNeeded_def)

lemma clearCacheIfNeeded_lastConfig:
  "lastConfig (clearCacheIfNeeded c mu) = Some (configKey c)"
  by (simp add: clearCacheIfNeeded_def)

text \<open>
  The mechanism: a query under a configuration whose key differs from the recorded one
  starts from an empty cache, and the cache it leaves holds values of this
  configuration only.
\<close>

lemma cache_cleared_on_mismatch:
  assumes "lastConfig mu \<noteq> Some (configKey c)"
  shows "positionCache (clearCacheIfNeeded c mu) = Map.empty \<and>
         lastConfig (clearCacheIfNeeded c mu) = Some (configKey c)"
  using assms by (simp add: clearCacheIfNeeded_def)

lemma cache_inv_hit:
  "cache_inv mu \<Longrightarrow> lastConfig mu = Some (configKey c) \<Longrightarrow> positionCache mu k = Some p \<Longrightarrow>
   p = cached_value c k"
  unfolding cache_inv_def by blast

lemma cache_inv_store:
  assumes "cache_inv mu" "lastConfig mu = Some (configKey c)"
  shows "cache_inv (mu\<lparr>positionCache := (positionCache mu)(k \<mapsto> cached_value c k)\<rparr>)"
  unfolding cache_inv_def
proof (intro conjI allI impI)
  show "positionCache (mu\<lparr>positionCache := (positionCache mu)(k \<mapsto> cached_value c k)\<rparr>) = Map.empty"
    if "lastConfig (mu\<lparr>positionCache := (positionCache mu)(k \<mapsto> cached_value c k)\<rparr>) = None"
    using that assms(2) by simp
next
  fix c' k' p
  assume l: "lastConfig (mu\<lparr>positionCache := (positionCache mu)(k \<mapsto> cached_value c k)\<rparr>) = Some (configKey c')"
     and h: "positionCache (mu\<lparr>positionCache := (positionCache mu)(k \<mapsto> cached_value c k)\<rparr>) k' = Some p"
  from l assms(2) have eq: "configKey c = configKey c'" by simp
  show "p = cached_value c' k'"
  proof (cases "k' = k")
    case True
    with h have "p = cached_value c k" by simp
    then show ?thesis using eq True by (simp add: cached_value_cong[of c c'])
  next
    case False
    with h have pc: "positionCache mu k' = Some p" by simp
    have lc: "lastConfig mu = Some (configKey c')" using assms(2) eq by simp
    show ?thesis by (rule cache_inv_hit[OF assms(1) lc pc])
  qed
qed

lemma computed_position:
  "(case js_div (real_of_int index) (real n) of
      None \<Rightarrow> NaNPosition
    | Some q \<Rightarrow> (let angle = q * pi * 2
                 in Position (centerX c + radius c * cos angle) (centerY c + radius c * sin angle)))
   = positionFormula c index n"
  by (simp add: js_div_def positionFormula_def Let_def mult_ac)

lemma getItemPosition_correct:
  assumes "cache_inv mu"
  shows "\<exists>mu'. getItemPosition c mu index totalItems =
               Inr (positionFormula c index (js_or totalItems (itemCount c)), mu') \<and>
             cache_inv mu' \<and> lastConfig mu' = Some (configKey c)"
proof -
  let ?mu = "clearCacheIfNeeded c mu"
  let ?n = "js_or totalItems (itemCount c)"
  let ?k = "PosKey index ?n"
  have inv: "cache_inv ?mu" using assms by (rule clearCacheIfNeeded_inv)
  have last: "lastConfig ?mu = Some (configKey c)" by (rule clearCacheIfNeeded_lastConfig)
  show ?thesis
  proof (cases "positionCache ?mu ?k")
    case None
    have "cache_inv (?mu\<lparr>positionCache := (positionCache ?mu)(?k \<mapsto> cached_value c ?k)\<rparr>)"
      using inv last by (rule cache_inv_store)
    then show ?thesis
      using None last by (simp add: getItemPosition_def Let_def computed_position)
  next
    case (Some p)
    then have "p = cached_value c ?k" using inv last by (intro cache_inv_hit)
    then show ?thesis
      using Some inv last by (simp add: getItemPosition_def Let_def)
  qed
qed

lemma getItemElementPosition_correct:
  assumes "cache_inv mu"
  shows "\<exists>mu'. getItemElementPosition c mu index totalItems =
               Inr (elementFormula c index (js_or totalItems (itemCount c)), mu') \<and>
             cache_inv mu' \<and> lastConfig mu' = Some (configKey c)"
proof -
  let ?mu = "clearCacheIfNeeded c mu"
  let ?n = "js_or totalItems (itemCount c)"
  let ?k = "ElemKey index ?n"
  have inv: "cache_inv ?mu" using assms by (rule clearCacheIfNeeded_inv)
  have last: "lastConfig ?mu = Some (configKey c)" by (rule clearCacheIfNeeded_lastConfig)
  show ?thesis
  proof (cases "positionCache ?mu ?k")
    case None
    have n: "js_or (Some ?n) (itemCount c) = ?n"
      by (simp add: js_or_def split: option.splits)
    obtain mu' where g: "getItemPosition c ?mu index (Some ?n) = Inr (positionFormula c index ?n, mu')"
      and inv': "cache_inv mu'" and last': "lastConfig mu' = Some (configKey c)"
      using getItemPosition_correct[OF inv, of c index "Some ?n"] unfolding n by blast
    have "cache_inv (mu'\<lparr>positionCache := (positionCache mu')(?k \<mapsto> cached_value c ?k)\<rparr>)"
      using inv' last' by (rule cache_inv_store)
    then show ?thesis
      using None g last' by (simp add: getItemElementPosition_def Let_def elementFormula_def)
  next
    case (Some p)
    then have "p = cached_value c ?k" using inv last by (intro cache_inv_hit)
    then show ?thesis
      using Some inv last by (simp add: getItemElementPosition_def Let_def)
  qed
qed

lemma run_query_correct:
  assumes "cache_inv mu"
  shows "\<exists>mu'. run_query c mu q = Inr (recomputed c q, mu') \<and> cache_inv mu'"
proof (cases q)
  case (CirclePos i t)
  then show ?thesis using getItemPosition_correct[OF assms, of c i t] by auto
next
  case (ElementPos i t)
  then show ?thesis using getItemElementPosition_correct[OF assms, of c i t] by auto
qed

lemma answers_correct: "cache_inv mu \<Longrightarrow> answers mu ss = recomputed_answers ss"
proof (induction mu ss rule: answers.induct)
  case (1 mu)
  then show ?case by simp
next
  case (2 mu ss)
  then show ?case by (simp add: cache_inv_clearCache)
next
  case (3 mu c q ss)
  obtain mu' where r: "run_query c mu q = Inr (recomputed c q, mu')" and inv: "cache_inv mu'"
    using run_query_correct[OF 3(3)] by blast
  have "answers mu' ss = recomputed_answers ss"
    using 3(2)[OF r[symmetric, THEN sym] refl inv] .
  then show ?case using r by simp
qed

lemma state_after_inv: "cache_inv mu \<Longrightarrow> cache_inv (state_after mu ss)"
proof (induction mu ss rule: state_after.induct)
  case (1 mu)
  then show ?case by simp
next
  case (2 mu ss)
  then show ?case by (simp add: cache_inv_clearCache)
next
  case (3 mu c q ss)
  obtain mu' where r: "run_query c mu q = Inr (recomputed c q, mu')" and inv: "cache_inv mu'"
    using run_query_correct[OF 3(3)] by blast
  have "cache_inv (state_after mu' ss)"
    using 3(2)[OF r[symmetric, THEN sym] refl inv] .
  then show ?case using r by simp
qed

lemma circlePosition_positionFormula:
  "0 < n \<Longrightarrow> positionFormula c index n = circlePosition index n c"
  by (simp add: positionFormula_def circlePosition_def)

text \<open>
  Claim C7. From the initial state, in every run of position queries, configuration
  changes and cache clearings, every query returns the value computed anew under the
  configuration current at the query: no value cached under another configuration is
  returned.
\<close>

theorem cached_positions_current:
  "answers MathUtils_init ss = recomputed_answers ss"
  using cache_inv_init by (rule answers_correct)

text \<open>
  Item 0 is asked for under the desktop configuration, then under the mobile one: the
  second answer is the mobile point, not the cached desktop one.
\<close>

theorem cached_positions_current_witness:
  "answers MathUtils_init
     [Query (calculateConfig DESKTOP 8) (CirclePos 0 None),
      Query (calculateConfig MOBILE 8) (CirclePos 0 None),
      ClearCache,
      Query (calculateConfig MOBILE 8) (ElementPos 0 (Some 8))] =
   [Inr (Position 550 300), Inr (Position 250 150), Inr (Position 220 120)]"
  unfolding cached_positions_current
  by (simp add: positionFormula_def elementFormula_def js_or_def calculateConfig_def
        DESKTOP_def MOBILE_def)

text \<open>
  Claim C2, as the code has it. For every configuration, every positive \<open>totalItems\<close>
  and every integer index, inside \<open>[0, totalItems)\<close> or not, and in every state the
  cache can be in, \<open>getItemPosition\<close> returns the point
  \<open>(centerX + radius cos \<theta>, centerY + radius sin \<theta>)\<close> with
  \<open>\<theta> = 2 \<pi> index / totalItems\<close>. It does not fail.
\<close>

theorem getItemPosition_any_index:
  assumes "0 < n"
  shows "\<exists>mu'. getItemPosition c (state_after MathUtils_init ss) index (Some n) =
               Inr (circlePosition index n c, mu')"
proof -
  have inv: "cache_inv (state_after MathUtils_init ss)"
    using cache_inv_init by (rule state_after_inv)
  have n: "js_or (Some n) (itemCount c) = n" using assms by (simp add: js_or_def)
  obtain mu' where
    "getItemPosition c (state_after MathUtils_init ss) index (Some n) =
       Inr (positionFormula c index n, mu')"
    using getItemPosition_correct[OF inv, of c index "Some n"] unfolding n by blast
  then show ?thesis
    using circlePosition_positionFormula[OF assms] by auto
qed

text \<open>Item 4 of 8 on the desktop circle lies opposite item 0, at \<open>(50, 300)\<close>.\<close>

theorem getItemPosition_any_index_witness:
  "\<exists>mu'. getItemPosition (calculateConfig DESKTOP 8) MathUtils_init 4 (Some 8) =
          Inr (Position 50 300, mu')"
  using getItemPosition_any_index[of 8 "calculateConfig DESKTOP 8" "[]" 4]
  by (simp add: circlePosition_def calculateConfig_def DESKTOP_def)

text \<open>
  Claim C2 as stated fails for an index outside the range: with 8 items, the index 8
  gets no \<open>InvalidIndex\<close> but the point of index 0.
\<close>

theorem getItemPosition_no_InvalidIndex:
  "getItemPosition (calculateConfig DESKTOP 8) MathUtils_init 8 (Some 8) \<noteq> Inl InvalidIndex \<and>
   (\<exists>mu'. getItemPosition (calculateConfig DESKTOP 8) MathUtils_init 8 (Some 8) =
           Inr (Position 550 300, mu'))"
  by (simp add: getItemPosition_def MathUtils_init_def clearCacheIfNeeded_def js_or_def js_div_def
        calculateConfig_def DESKTOP_def Let_def)

section \<open>The control point of a curved connector\<close>

text \<open>
  Claim C8. For every two points with real coordinates and every height ratio,
  \<open>getArcControlPoint\<close> returns a point with real coordinates. When the midpoint of
  the two is the centre of the circle it is the midpoint. Otherwise the distance
  \<open>len\<close> from the midpoint to the centre is positive, which is the divisor of the only
  divisions made, and the result is the midpoint moved by \<open>radius * ratio\<close> along the
  unit vector from the midpoint to the centre.
\<close>

theorem getArcControlPoint_total:
  "getArcControlPoint c (Position x1 y1) (Position x2 y2) h \<noteq> NaNPosition \<and>
   (let ratio = (case h of Some r \<Rightarrow> r | None \<Rightarrow> arcHeightRatio c);
        mx = (x1 + x2) / 2; my = (y1 + y2) / 2;
        dx = centerX c - mx; dy = centerY c - my;
        len = sqrt (dx * dx + dy * dy)
    in (mx = centerX c \<and> my = centerY c \<longrightarrow>
          getArcControlPoint c (Position x1 y1) (Position x2 y2) h = Position mx my) \<and>
       (\<not> (mx = centerX c \<and> my = centerY c) \<longrightarrow>
          0 < len \<and>
          getArcControlPoint c (Position x1 y1) (Position x2 y2) h =
            Position (mx + dx / len * (radius c * ratio)) (my + dy / len * (radius c * ratio))))"
proof -
  define mx where "mx = (x1 + x2) / 2"
  define my where "my = (y1 + y2) / 2"
  define dx where "dx = centerX c - mx"
  define dy where "dy = centerY c - my"
  define len where "len = sqrt (dx * dx + dy * dy)"
  define ratio where "ratio = (case h of Some r \<Rightarrow> r | None \<Rightarrow> arcHeightRatio c)"
  have len0: "len = 0 \<longleftrightarrow> dx = 0 \<and> dy = 0"
    by (simp add: len_def real_sqrt_eq_zero_cancel_iff sum_squares_eq_zero_iff)
  have lenpos: "0 < len" if "\<not> (dx = 0 \<and> dy = 0)"
  proof -
    have "0 \<le> len" by (simp add: len_def)
    moreover have "len \<noteq> 0" using that len0 by simp
    ultimately show ?thesis by simp
  qed
  have norm: "normalizeVector (Position dx dy) =
              (if dx = 0 \<and> dy = 0 then Position 0 0 else Position (dx / len) (dy / len))"
    using len0 by (simp add: len_def[symmetric] js_div_def Let_def)
  have res: "getArcControlPoint c (Position x1 y1) (Position x2 y2) h =
             (if dx = 0 \<and> dy = 0 then Position mx my
              else Position (mx + dx / len * (radius c * ratio)) (my + dy / len * (radius c * ratio)))"
    unfolding getArcControlPoint_def
    by (simp add: Let_def mx_def[symmetric] my_def[symmetric] dx_def[symmetric] dy_def[symmetric]
          norm ratio_def[symmetric] del: normalizeVector.simps)
  have c0: "(dx = 0 \<and> dy = 0) \<longleftrightarrow> (mx = centerX c \<and> my = centerY c)"
    by (auto simp: dx_def dy_def)
  show ?thesis
    unfolding Let_def mx_def[symmetric] my_def[symmetric] dx_def[symmetric] dy_def[symmetric]
      len_def[symmetric] ratio_def[symmetric]
    using res c0 lenpos by auto
qed

text \<open>
  On the desktop circle (centre \<open>(300, 300)\<close>, radius 250, ratio 0.3): a chord through
  the centre, and a chord whose midpoint \<open>(0, 300)\<close> is moved by 75 towards the centre.
\<close>

theorem getArcControlPoint_total_witness:
  "getArcControlPoint (calculateConfig DESKTOP 8) (Position 300 100) (Position 300 500) None =
     Position 300 300 \<and>
   getArcControlPoint (calculateConfig DESKTOP 8) (Position 0 100) (Position 0 500) None =
     Position 75 300"
  using getArcControlPoint_total[of "calculateConfig DESKTOP 8" 300 100 300 500 None]
        getArcControlPoint_total[of "calculateConfig DESKTOP 8" 0 100 0 500 None]
  by (simp add: calculateConfig_def DESKTOP_def Let_def)

section \<open>The states of the connectors\<close>

lemma getItemPosition_returns: "\<exists>p mu'. getItemPosition c mu i t = Inr (p, mu')"
  by (simp add: getItemPosition_def Let_def split: option.split)

lemma createSingleLine_enabled:
  assumes "isEnabled pm"
  shows "\<exists>mu' p1 p2. createSingleLine c i j (mu, pm) =
           (mu', pm\<lparr>connectionLines := connectionLines pm @ [newLine c (created pm) i j p1 p2],
                    created := Suc (created pm)\<rparr>)"
proof -
  obtain p1 mu1 where a: "getItemPosition c mu i (Some (itemCount c)) = Inr (p1, mu1)"
    using getItemPosition_returns by blast
  obtain p2 mu2 where b: "getItemPosition c mu1 j (Some (itemCount c)) = Inr (p2, mu2)"
    using getItemPosition_returns by blast
  show ?thesis
    using assms a b
    by (intro exI[of _ mu2] exI[of _ p1] exI[of _ p2])
       (simp add: createSingleLine_def Let_def newLine_def)
qed

lemma createSingleLine_disabled:
  "\<not> isEnabled pm \<Longrightarrow> createSingleLine c i j (mu, pm) = (mu, pm)"
  by (simp add: createSingleLine_def)

lemma pm_inv_createSingleLine:
  assumes "pm_inv pm"
  shows "pm_inv (snd (createSingleLine c i j (mu, pm)))"
proof (cases "isEnabled pm")
  case False
  then show ?thesis using assms by (simp add: createSingleLine_disabled)
next
  case True
  then obtain mu' p1 p2 where
    "createSingleLine c i j (mu, pm) =
       (mu', pm\<lparr>connectionLines := connectionLines pm @ [newLine c (created pm) i j p1 p2],
                created := Suc (created pm)\<rparr>)"
    using createSingleLine_enabled by blast
  then show ?thesis
    using assms by (auto simp: pm_inv_def newLine_def validState_def less_Suc_eq)
qed

lemma pm_inv_fold_createSingleLine:
  "pm_inv (snd s) \<Longrightarrow> pm_inv (snd (fold (\<lambda>conn. createSingleLine c (fst conn) (snd conn)) conns s))"
proof (induction conns arbitrary: s)
  case Nil
  then show ?case by simp
next
  case (Cons x conns)
  have "pm_inv (snd (createSingleLine c (fst x) (snd x) s))"
    using pm_inv_createSingleLine[OF Cons.prems, of c "fst x" "snd x" "fst s"] by simp
  then show ?case using Cons.IH by simp
qed

lemma pm_inv_createConnectionLines:
  "pm_inv pm \<Longrightarrow> pm_inv (snd (createConnectionLines c conns (mu, pm)))"
  using pm_inv_fold_createSingleLine[of "(mu, pm)" c conns]
  by (simp add: createConnectionLines_def)

lemma toggleFirst_ids:
  "map (\<lambda>l. elemId (element l)) (toggleFirst e ls) = map (\<lambda>l. elemId (element l)) ls"
  by (induction ls) simp_all

lemma toggleFirst_valid:
  "\<forall>l \<in> set ls. P (elemId (element l)) \<and> validState (state l) \<Longrightarrow>
   \<forall>l \<in> set (toggleFirst e ls). P (elemId (element l)) \<and> validState (state l)"
  by (induction ls) (auto simp: validState_def)

lemma pm_inv_toggle: "pm_inv pm \<Longrightarrow> pm_inv (togglePathState pm e)"
  unfolding pm_inv_def togglePathState_def
  using toggleFirst_valid[of "connectionLines pm" "\<lambda>k. k < created pm" e]
  by (simp add: toggleFirst_ids)

lemma pm_inv_reset: "pm_inv pm \<Longrightarrow> pm_inv (resetAllPaths pm)"
  by (auto simp: pm_inv_def resetAllPaths_def validState_def comp_def)

lemma pm_inv_clear: "pm_inv pm \<Longrightarrow> pm_inv (clearConnections pm)"
  by (simp add: pm_inv_def clearConnections_def)

lemma restoreStates_ids:
  "map (\<lambda>l. elemId (element l)) (restoreStates m ls) = map (\<lambda>l. elemId (element l)) ls"
  by (induction ls) (simp_all add: restoreStates_def split: option.split)

lemma find_snoc:
  "List.find P (xs @ [x]) = (case List.find P xs of None \<Rightarrow> (if P x then Some x else None) | Some y \<Rightarrow> Some y)"
  by (induction xs) simp_all

lemma storeStates_fold:
  "fold (\<lambda>l m. m(lineKey l \<mapsto> state l)) ls m k =
   (case List.find (\<lambda>l. lineKey l = k) (rev ls) of
      Some l \<Rightarrow> Some (state l)
    | None \<Rightarrow> m k)"
proof (induction ls arbitrary: m)
  case Nil
  then show ?case by simp
next
  case (Cons l ls)
  have "fold (\<lambda>l m. m(lineKey l \<mapsto> state l)) (l # ls) m k =
        fold (\<lambda>l m. m(lineKey l \<mapsto> state l)) ls (m(lineKey l \<mapsto> state l)) k"
    by simp
  also have "\<dots> = (case List.find (\<lambda>l. lineKey l = k) (rev ls) of
                      Some l \<Rightarrow> Some (state l)
                    | None \<Rightarrow> (m(lineKey l \<mapsto> state l)) k)"
    by (rule Cons.IH)
  also have "\<dots> = (case List.find (\<lambda>l. lineKey l = k) (rev (l # ls)) of
                      Some l \<Rightarrow> Some (state l)
                    | None \<Rightarrow> m k)"
    by (simp add: find_snoc split: option.split)
  finally show ?case .
qed

lemma storeStates_find:
  "storeStates ls k = map_option state (List.find (\<lambda>l. lineKey l = k) (rev ls))"
  by (simp add: storeStates_def storeStates_fold split: option.split)

lemma find_SomeD: "List.find P xs = Some x \<Longrightarrow> x \<in> set xs \<and> P x"
  by (induction xs) (auto split: if_splits)

lemma storeStates_valid:
  "\<forall>l \<in> set ls. validState (state l) \<Longrightarrow> storeStates ls k = Some s \<Longrightarrow> validState s"
  by (auto simp: storeStates_find dest!: find_SomeD)

lemma pm_inv_rebuild:
  assumes "pm_inv pm"
  shows "pm_inv (snd (rebuildAllPaths c (mu, pm)))"
proof (cases "isEnabled pm")
  case False
  then show ?thesis using assms by (simp add: rebuildAllPaths_def)
next
  case True
  let ?s2 = "createConnectionLines c (completeConnections (itemCount c)) (mu, clearConnections pm)"
  have inv2: "pm_inv (snd ?s2)"
    using pm_inv_createConnectionLines[OF pm_inv_clear[OF assms]] .
  have old: "\<forall>l \<in> set (connectionLines pm). validState (state l)"
    using assms by (simp add: pm_inv_def)
  have "\<forall>l \<in> set (restoreStates (storeStates (connectionLines pm)) (connectionLines (snd ?s2))).
          elemId (element l) < created (snd ?s2) \<and> validState (state l)"
    using inv2 storeStates_valid[OF old]
    by (auto simp: restoreStates_def pm_inv_def split: option.splits)
  then show ?thesis
    using True inv2 by (simp add: rebuildAllPaths_def Let_def pm_inv_def restoreStates_ids)
qed

lemma reachable_inv: "reachable pm \<Longrightarrow> pm_inv pm"
proof (induction rule: reachable.induct)
  case (r_new hasSvg)
  then show ?case by (simp add: pm_inv_def PathManager_new_def)
next
  case (r_createSingleLine pm c i j mu)
  then show ?case by (simp add: pm_inv_createSingleLine)
next
  case (r_createConnectionLines pm c conns mu)
  then show ?case by (simp add: pm_inv_createConnectionLines)
next
  case (r_toggle pm e)
  then show ?case by (simp add: pm_inv_toggle)
next
  case (r_reset pm)
  then show ?case by (simp add: pm_inv_reset)
next
  case (r_clear pm)
  then show ?case by (simp add: pm_inv_clear)
next
  case (r_rebuild pm c mu)
  then show ?case by (simp add: pm_inv_rebuild)
qed

lemma toggleFirst_distinct:
  assumes "distinct (map (\<lambda>l. elemId (element l)) ls)" "l \<in> set ls"
  shows "toggleFirst (elemId (element l)) ls =
         map (\<lambda>k. if k = l
                   then l\<lparr>state := (if state l = TRANSPARENT then PINK_SOLID
                                    else if state l = PINK_SOLID then GREEN_SOLID
                                    else if state l = GREEN_SOLID then TRANSPARENT
                                    else TRANSPARENT)\<rparr>
                   else k) ls"
  using assms
proof (induction ls)
  case Nil
  then show ?case by simp
next
  case (Cons a ls)
  show ?case
  proof (cases "a = l")
    case True
    have "\<forall>k \<in> set ls. k \<noteq> l" using Cons.prems(1) True by auto
    then have "map (\<lambda>k. if k = l then l\<lparr>state := (if state l = TRANSPARENT then PINK_SOLID
                                    else if state l = PINK_SOLID then GREEN_SOLID
                                    else if state l = GREEN_SOLID then TRANSPARENT
                                    else TRANSPARENT)\<rparr> else k) ls = ls"
      by (induction ls) simp_all
    then show ?thesis using True by simp
  next
    case False
    then have l: "l \<in> set ls" using Cons.prems(2) by simp
    then have "elemId (element a) \<noteq> elemId (element l)" using Cons.prems(1) by auto
    moreover have "distinct (map (\<lambda>l. elemId (element l)) ls)" using Cons.prems(1) by simp
    ultimately show ?thesis using False Cons.IH l by simp
  qed
qed

lemma toggleFirst_thrice:
  "\<forall>l \<in> set ls. validState (state l) \<Longrightarrow>
   toggleFirst e (toggleFirst e (toggleFirst e ls)) = ls"
proof (induction ls)
  case Nil
  then show ?case by simp
next
  case (Cons a ls)
  then have v: "validState (state a)" by simp
  show ?case
  proof (cases "elemId (element a) = e")
    case True
    then show ?thesis using v
      by (auto simp: validState_def PINK_SOLID_def GREEN_SOLID_def TRANSPARENT_def)
  next
    case False
    then show ?thesis using Cons by simp
  qed
qed

lemma nextState_valid:
  "validState s \<Longrightarrow>
   (if s = TRANSPARENT then PINK_SOLID
    else if s = PINK_SOLID then GREEN_SOLID
    else if s = GREEN_SOLID then TRANSPARENT
    else TRANSPARENT) = nextState s"
  by (auto simp: nextState_def validState_def PINK_SOLID_def GREEN_SOLID_def TRANSPARENT_def)

text \<open>
  Claim C3. In every reachable manager and for every line \<open>l\<close> of it, the state of
  \<open>l\<close> is one of the three; \<open>togglePathState\<close> on the element of \<open>l\<close> replaces
  \<open>l\<close> by \<open>l\<close> with the next state of the cycle
  \<open>TRANSPARENT \<rightarrow> PINK_SOLID \<rightarrow> GREEN_SOLID \<rightarrow> TRANSPARENT\<close> and leaves every
  other line as it is; the next state is never the present one; and three toggles of
  the same element give back the manager.
\<close>

theorem togglePathState_cycle:
  assumes "reachable pm" and "l \<in> set (connectionLines pm)"
  shows "validState (state l) \<and>
         connectionLines (togglePathState pm (elemId (element l))) =
           map (\<lambda>k. if k = l then l\<lparr>state := nextState (state l)\<rparr> else k) (connectionLines pm) \<and>
         (state l = TRANSPARENT \<longrightarrow> nextState (state l) = PINK_SOLID) \<and>
         (state l = PINK_SOLID \<longrightarrow> nextState (state l) = GREEN_SOLID) \<and>
         (state l = GREEN_SOLID \<longrightarrow> nextState (state l) = TRANSPARENT) \<and>
         nextState (state l) \<noteq> state l \<and>
         togglePathState (togglePathState (togglePathState pm (elemId (element l)))
           (elemId (element l))) (elemId (element l)) = pm"
proof -
  have inv: "pm_inv pm" using assms(1) by (rule reachable_inv)
  then have d: "distinct (map (\<lambda>l. elemId (element l)) (connectionLines pm))"
    and v: "\<forall>l \<in> set (connectionLines pm). validState (state l)"
    by (simp_all add: pm_inv_def)
  have vl: "validState (state l)" using v assms(2) by blast
  have "connectionLines (togglePathState pm (elemId (element l))) =
        map (\<lambda>k. if k = l then l\<lparr>state := nextState (state l)\<rparr> else k) (connectionLines pm)"
    using toggleFirst_distinct[OF d assms(2)] nextState_valid[OF vl]
    by (simp add: togglePathState_def)
  moreover have "togglePathState (togglePathState (togglePathState pm (elemId (element l)))
           (elemId (element l))) (elemId (element l)) = pm"
    using toggleFirst_thrice[OF v] by (simp add: togglePathState_def)
  moreover have "(state l = TRANSPARENT \<longrightarrow> nextState (state l) = PINK_SOLID) \<and>
         (state l = PINK_SOLID \<longrightarrow> nextState (state l) = GREEN_SOLID) \<and>
         (state l = GREEN_SOLID \<longrightarrow> nextState (state l) = TRANSPARENT) \<and>
         nextState (state l) \<noteq> state l"
    by (simp add: nextState_def PINK_SOLID_def GREEN_SOLID_def TRANSPARENT_def)
  ultimately show ?thesis using vl by blast
qed

text \<open>A manager with one new line, toggled once: the line is \<open>PINK_SOLID\<close>.\<close>

theorem togglePathState_cycle_witness:
  "map state (connectionLines (togglePathState
      (snd (createSingleLine (calculateConfig MOBILE 2) 0 1 (MathUtils_init, PathManager_new True))) 0)) =
     [PINK_SOLID]"
proof -
  let ?c = "calculateConfig MOBILE 2"
  let ?pm = "snd (createSingleLine ?c 0 1 (MathUtils_init, PathManager_new True))"
  have r: "reachable ?pm" by (rule r_createSingleLine[OF r_new])
  have en: "isEnabled (PathManager_new True)" by (simp add: PathManager_new_def)
  obtain mu' p1 p2 where
    "createSingleLine ?c 0 1 (MathUtils_init, PathManager_new True) =
       (mu', (PathManager_new True)\<lparr>connectionLines :=
                connectionLines (PathManager_new True) @ [newLine ?c (created (PathManager_new True)) 0 1 p1 p2],
                created := Suc (created (PathManager_new True))\<rparr>)"
    using createSingleLine_enabled[OF en] by blast
  then have lines: "connectionLines ?pm = [newLine ?c 0 0 1 p1 p2]"
    by (simp add: PathManager_new_def)
  then have mem: "newLine ?c 0 0 1 p1 p2 \<in> set (connectionLines ?pm)" by simp
  have e: "elemId (element (newLine ?c 0 0 1 p1 p2)) = 0" and s: "state (newLine ?c 0 0 1 p1 p2) = TRANSPARENT"
    by (simp_all add: newLine_def)
  from togglePathState_cycle[OF r mem] show ?thesis
    unfolding e s lines by simp
qed

section \<open>Rebuilding the connectors\<close>

lemma summary_newLine:
  "summary (newLine c k i j p1 p2) = ((i, j), TRANSPARENT, isDiagonalPair c i j (Some (itemCount c)))"
  by (simp add: summary_def newLine_def lineKey_def createLinearPath_def createArcPath_def)

lemma createSingleLine_summary:
  assumes "isEnabled (snd s)"
  shows "isEnabled (snd (createSingleLine c i j s)) \<and>
         map summary (connectionLines (snd (createSingleLine c i j s))) =
         map summary (connectionLines (snd s)) @
           [((i, j), TRANSPARENT, isDiagonalPair c i j (Some (itemCount c)))]"
proof -
  obtain mu pm where s: "s = (mu, pm)" by (cases s)
  with assms have "isEnabled pm" by simp
  then obtain mu' p1 p2 where
    "createSingleLine c i j (mu, pm) =
       (mu', pm\<lparr>connectionLines := connectionLines pm @ [newLine c (created pm) i j p1 p2],
                created := Suc (created pm)\<rparr>)"
    using createSingleLine_enabled by blast
  then show ?thesis using s \<open>isEnabled pm\<close> by (simp add: summary_newLine)
qed

lemma fold_createSingleLine_summary:
  assumes "isEnabled (snd s)"
  shows "map summary (connectionLines (snd (fold (\<lambda>conn. createSingleLine c (fst conn) (snd conn)) conns s))) =
         map summary (connectionLines (snd s)) @
           map (\<lambda>conn. (conn, TRANSPARENT, isDiagonalPair c (fst conn) (snd conn) (Some (itemCount c)))) conns"
  using assms
proof (induction conns arbitrary: s)
  case Nil
  then show ?case by simp
next
  case (Cons x conns)
  note step = createSingleLine_summary[OF Cons.prems, of c "fst x" "snd x"]
  show ?case
    using Cons.IH[OF conjunct1[OF step]] conjunct2[OF step] by simp
qed

lemma createConnectionLines_summary:
  assumes "isEnabled pm"
  shows "map summary (connectionLines (snd (createConnectionLines c conns (mu, pm)))) =
         map summary (connectionLines pm) @
           map (\<lambda>conn. (conn, TRANSPARENT, isDiagonalPair c (fst conn) (snd conn) (Some (itemCount c)))) conns"
proof (cases "conns = []")
  case True
  then show ?thesis by (simp add: createConnectionLines_def)
next
  case False
  then show ?thesis
    using fold_createSingleLine_summary[of "(mu, pm)" c conns] assms
    by (simp add: createConnectionLines_def)
qed

lemma fold_snoc_pairs:
  "fold (\<lambda>j acc'. acc' @ [(int i, int j)]) js acc = acc @ map (\<lambda>j. (int i, int j)) js"
  by (induction js arbitrary: acc) simp_all

lemma fold_rows_pairs:
  "fold (\<lambda>i acc. fold (\<lambda>j acc'. acc' @ [(int i, int j)]) [Suc i..<n] acc) is acc =
   acc @ concat (map (\<lambda>i. map (\<lambda>j. (int i, int j)) [Suc i..<n]) is)"
  by (induction "is" arbitrary: acc) (simp_all add: fold_snoc_pairs)

lemma completeConnections_upperTriangle:
  "completeConnections n = map (\<lambda>p. (int (fst p), int (snd p))) (upperTriangle n)"
  by (simp add: completeConnections_def fold_rows_pairs upperTriangle_def map_concat comp_def)

lemma restoreStates_summary:
  "map summary (restoreStates m ls) =
   map (\<lambda>l. (lineKey l, (case m (lineKey l) of Some s \<Rightarrow> s | None \<Rightarrow> state l),
              is_linear (attr_d (element l)))) ls"
  by (induction ls) (simp_all add: restoreStates_def summary_def lineKey_def split: option.split)

lemma rebuildAllPaths_summary:
  assumes "isEnabled pm"
  shows "map summary (connectionLines (snd (rebuildAllPaths c (mu, pm)))) =
         map (\<lambda>conn. (conn,
                       (case previousState (connectionLines pm) conn of
                          Some s \<Rightarrow> s | None \<Rightarrow> TRANSPARENT),
                       isDiagonalPair c (fst conn) (snd conn) (Some (itemCount c))))
             (completeConnections (itemCount c))"
proof -
  let ?s2 = "createConnectionLines c (completeConnections (itemCount c)) (mu, clearConnections pm)"
  let ?m = "storeStates (connectionLines pm)"
  have en: "isEnabled (clearConnections pm)" using assms by (simp add: clearConnections_def)
  have s2: "map summary (connectionLines (snd ?s2)) =
            map (\<lambda>conn. (conn, TRANSPARENT, isDiagonalPair c (fst conn) (snd conn) (Some (itemCount c))))
                (completeConnections (itemCount c))"
    using createConnectionLines_summary[OF en, of c _ mu] by (simp add: clearConnections_def)
  have "map summary (connectionLines (snd (rebuildAllPaths c (mu, pm)))) =
        map summary (restoreStates ?m (connectionLines (snd ?s2)))"
    using assms by (simp add: rebuildAllPaths_def Let_def)
  also have "\<dots> = map (\<lambda>t. (fst t, (case ?m (fst t) of Some s \<Rightarrow> s | None \<Rightarrow> fst (snd t)), snd (snd t)))
                      (map summary (connectionLines (snd ?s2)))"
    by (simp add: restoreStates_summary summary_def split: option.split)
  also have "\<dots> = map (\<lambda>conn. (conn,
                       (case previousState (connectionLines pm) conn of
                          Some s \<Rightarrow> s | None \<Rightarrow> TRANSPARENT),
                       isDiagonalPair c (fst conn) (snd conn) (Some (itemCount c))))
             (completeConnections (itemCount c))"
    unfolding s2 by (simp add: previousState_def storeStates_find split: option.split)
  finally show ?thesis .
qed

lemma previousState_distinct:
  assumes "distinct (map lineKey ls)" "l \<in> set ls"
  shows "previousState ls (lineKey l) = Some (state l)"
proof -
  have "List.find (\<lambda>x. lineKey x = lineKey l) (rev ls) = Some l"
    using assms
  proof (induction ls)
    case Nil
    then show ?case by simp
  next
    case (Cons a ls)
    show ?case
    proof (cases "a = l")
      case True
      then have "lineKey l \<notin> lineKey ` set ls" using Cons.prems(1) by simp
      then have "\<forall>x \<in> set ls. lineKey x \<noteq> lineKey l" by (metis imageI)
      then have "List.find (\<lambda>x. lineKey x = lineKey l) (rev ls) = None"
        by (simp add: find_None_iff)
      then show ?thesis using True by (simp add: find_snoc)
    next
      case False
      then have "List.find (\<lambda>x. lineKey x = lineKey l) (rev ls) = Some l"
        using Cons by simp
      then show ?thesis by (simp add: find_snoc)
    qed
  qed
  then show ?thesis by (simp add: previousState_def)
qed

lemma previousState_None:
  "k \<notin> lineKey ` set ls \<Longrightarrow> previousState ls k = None"
  by (auto simp: previousState_def find_None_iff)

text \<open>
  Claim C4. After \<open>_rebuildAllPaths\<close> on an enabled manager the lines are those of
  the complete graph on the configured item count, in canonical order. Each has the
  state the old edge set recorded for its key, and \<open>TRANSPARENT\<close> when the old set
  has no line with the key. Where the old keys are pairwise distinct, a new line has
  the state of the old line with its key.
\<close>

theorem rebuildAllPaths_restores_states:
  assumes "isEnabled pm"
  shows "map lineKey (connectionLines (snd (rebuildAllPaths c (mu, pm)))) =
           map (\<lambda>p. (int (fst p), int (snd p))) (upperTriangle (itemCount c)) \<and>
         (\<forall>l \<in> set (connectionLines (snd (rebuildAllPaths c (mu, pm)))).
            state l = (case previousState (connectionLines pm) (lineKey l) of
                         Some s \<Rightarrow> s | None \<Rightarrow> TRANSPARENT)) \<and>
         (distinct (map lineKey (connectionLines pm)) \<longrightarrow>
            (\<forall>l \<in> set (connectionLines (snd (rebuildAllPaths c (mu, pm)))).
               \<forall>old \<in> set (connectionLines pm).
                 lineKey l = lineKey old \<longrightarrow> state l = state old)) \<and>
         (\<forall>l \<in> set (connectionLines (snd (rebuildAllPaths c (mu, pm)))).
            lineKey l \<notin> lineKey ` set (connectionLines pm) \<longrightarrow> state l = TRANSPARENT)"
proof -
  let ?new = "connectionLines (snd (rebuildAllPaths c (mu, pm)))"
  let ?old = "connectionLines pm"
  note S = rebuildAllPaths_summary[OF assms, of c mu]
  have keys: "map lineKey ?new = completeConnections (itemCount c)"
  proof -
    have "map lineKey ?new = map fst (map summary ?new)" by (simp add: summary_def)
    also have "\<dots> = completeConnections (itemCount c)" unfolding S by (simp add: comp_def)
    finally show ?thesis .
  qed
  have st: "state l = (case previousState ?old (lineKey l) of Some s \<Rightarrow> s | None \<Rightarrow> TRANSPARENT)"
    if "l \<in> set ?new" for l
  proof -
    have "summary l \<in> set (map summary ?new)" using that by simp
    then show ?thesis unfolding S by (auto simp: summary_def)
  qed
  have A: "map lineKey ?new = map (\<lambda>p. (int (fst p), int (snd p))) (upperTriangle (itemCount c))"
    using keys by (simp add: completeConnections_upperTriangle)
  have B: "\<forall>l \<in> set ?new. state l = (case previousState ?old (lineKey l) of Some s \<Rightarrow> s | None \<Rightarrow> TRANSPARENT)"
    using st by blast
  have C: "distinct (map lineKey ?old) \<longrightarrow>
            (\<forall>l \<in> set ?new. \<forall>old \<in> set ?old. lineKey l = lineKey old \<longrightarrow> state l = state old)"
  proof (intro impI ballI)
    fix l old assume d: "distinct (map lineKey ?old)" and l: "l \<in> set ?new"
      and o: "old \<in> set ?old" and k: "lineKey l = lineKey old"
    have "previousState ?old (lineKey l) = Some (state old)"
      unfolding k using d o by (rule previousState_distinct)
    then show "state l = state old" using st[OF l] by simp
  qed
  have D: "\<forall>l \<in> set ?new. lineKey l \<notin> lineKey ` set ?old \<longrightarrow> state l = TRANSPARENT"
  proof (intro ballI impI)
    fix l assume l: "l \<in> set ?new" and n: "lineKey l \<notin> lineKey ` set ?old"
    have "previousState ?old (lineKey l) = None" using n by (rule previousState_None)
    then show "state l = TRANSPARENT" using st[OF l] by simp
  qed
  show ?thesis using A B C D by blast
qed

text \<open>
  The lines \<open>(0,1)\<close>, \<open>(0,2)\<close>, \<open>(1,2)\<close> in the states green, pink, transparent are
  rebuilt for two items: the one line left, \<open>(0,1)\<close>, is green.
\<close>

theorem rebuildAllPaths_restores_states_witness:
  "map (\<lambda>l. (lineKey l, state l))
     (connectionLines (snd (rebuildAllPaths (calculateConfig MOBILE 2) (MathUtils_init, demo_manager)))) =
   [((0, 1), GREEN_SOLID)]"
proof -
  let ?new = "connectionLines (snd (rebuildAllPaths (calculateConfig MOBILE 2) (MathUtils_init, demo_manager)))"
  have en: "isEnabled demo_manager" by (simp add: demo_manager_def)
  note T = rebuildAllPaths_restores_states[OF en, of "calculateConfig MOBILE 2" MathUtils_init]
  have ut: "upperTriangle 2 = [(0, 1)]" by (simp add: upperTriangle_def upt_rec)
  have keys: "map lineKey ?new = [(0, 1)]"
    using T ut by (simp add: calculateConfig_def)
  then obtain l where l: "?new = [l]" and k: "lineKey l = (0, 1)" by auto
  have prev: "previousState (connectionLines demo_manager) (0, 1) = Some GREEN_SOLID"
    by (simp add: previousState_def demo_manager_def demo_line_def lineKey_def)
  have "state l = GREEN_SOLID"
    using T l k prev by simp
  then show ?thesis using l k by simp
qed

section \<open>Opposite pairs are drawn straight\<close>

lemma isDiagonalPair_iff:
  assumes "0 < n"
  shows "isDiagonalPair c a b (Some n) \<longleftrightarrow> even n \<and> \<bar>a - b\<bar> = int (n div 2)"
proof -
  have n: "js_or (Some n) (itemCount c) = n" using assms by (simp add: js_or_def)
  have "real_of_int \<bar>a - b\<bar> = real n / 2 \<longleftrightarrow> \<bar>a - b\<bar> = int (n div 2)" if "even n"
  proof -
    from that obtain k where k: "n = 2 * k" by (auto elim: evenE)
    have "real_of_int \<bar>a - b\<bar> = real k \<longleftrightarrow> \<bar>a - b\<bar> = int k"
      by (metis of_int_eq_iff of_int_of_nat_eq)
    then show ?thesis by (simp add: k)
  qed
  then show ?thesis
    by (auto simp: isDiagonalPair_def n Let_def even_iff_mod_2_eq_zero)
qed

lemma opposite_pairs_set:
  assumes "even n"
  shows "{p. \<bar>int (fst p) - int (snd p)\<bar> = int (n div 2)} \<inter> set (upperTriangle n) =
         (\<lambda>i. (i, i + n div 2)) ` {i. i < n div 2 \<and> 0 < n}"
proof -
  from assms obtain h where h: "n = 2 * h" by (auto elim: evenE)
  show ?thesis
    unfolding set_upperTriangle h
    by (auto simp: image_iff)
qed

lemma count_opposite_pairs:
  assumes "even n"
  shows "length (filter (\<lambda>p. \<bar>int (fst p) - int (snd p)\<bar> = int (n div 2)) (upperTriangle n)) = n div 2"
proof -
  have "length (filter (\<lambda>p. \<bar>int (fst p) - int (snd p)\<bar> = int (n div 2)) (upperTriangle n)) =
        card ({p. \<bar>int (fst p) - int (snd p)\<bar> = int (n div 2)} \<inter> set (upperTriangle n))"
    using distinct_upperTriangle by (rule distinct_length_filter)
  also have "\<dots> = card ((\<lambda>i. (i, i + n div 2)) ` {i. i < n div 2 \<and> 0 < n})"
    by (simp only: opposite_pairs_set[OF assms])
  also have "\<dots> = card {i. i < n div 2 \<and> 0 < n}"
    by (rule card_image) (simp add: inj_on_def)
  also have "\<dots> = n div 2"
  proof (cases "0 < n")
    case True
    then have "{i. i < n div 2 \<and> 0 < n} = {..<n div 2}" by auto
    then show ?thesis by simp
  next
    case False
    then show ?thesis by simp
  qed
  finally show ?thesis .
qed

lemma is_quadratic_iff: "is_quadratic d \<longleftrightarrow> \<not> is_linear d"
  by (cases d) simp_all

text \<open>
  When the graph is the complete graph on the configured item count: for an even
  \<open>n \<ge> 2\<close> that is the configured item count, exactly \<open>n / 2\<close> of the canonical pairs
  are diagonal pairs; the lines created are \<open>n (n - 1) / 2\<close>, a line is a straight
  segment exactly when its pair is diagonal and a quadratic curve exactly when it is not,
  and the straight ones are \<open>n / 2\<close>.
\<close>

lemma configured_count_lines:
  assumes "even n" and "2 \<le> n" and "itemCount c = n"
      and "isEnabled pm" and "connectionLines pm = []"
  shows "(\<forall>a b. isDiagonalPair c a b (Some n) \<longleftrightarrow> even n \<and> \<bar>a - b\<bar> = int (n div 2)) \<and>
         length (filter (\<lambda>p. isDiagonalPair c (int (fst p)) (int (snd p)) (Some n))
                   (upperTriangle n)) = n div 2 \<and>
         length (connectionLines (snd (createConnectionLines c (completeConnections n) (mu, pm)))) =
           n * (n - 1) div 2 \<and>
         (\<forall>l \<in> set (connectionLines (snd (createConnectionLines c (completeConnections n) (mu, pm)))).
            (is_linear (attr_d (element l)) \<longleftrightarrow>
               isDiagonalPair c (line_from l) (line_to l) (Some n)) \<and>
            (is_quadratic (attr_d (element l)) \<longleftrightarrow>
               \<not> isDiagonalPair c (line_from l) (line_to l) (Some n))) \<and>
         length (filter (\<lambda>l. is_linear (attr_d (element l)))
                   (connectionLines (snd (createConnectionLines c (completeConnections n) (mu, pm))))) =
           n div 2"
proof -
  let ?lines = "connectionLines (snd (createConnectionLines c (completeConnections n) (mu, pm)))"
  let ?diag = "\<lambda>conn. isDiagonalPair c (fst conn) (snd conn) (Some n)"
  have pos: "0 < n" using assms(2) by simp
  have S: "map summary ?lines = map (\<lambda>conn. (conn, TRANSPARENT, ?diag conn)) (completeConnections n)"
    using createConnectionLines_summary[OF assms(4), of c "completeConnections n" mu]
    by (simp add: assms(3,5))
  have A: "\<forall>a b. isDiagonalPair c a b (Some n) \<longleftrightarrow> even n \<and> \<bar>a - b\<bar> = int (n div 2)"
    using isDiagonalPair_iff[OF pos] by blast
  have B: "length (filter (\<lambda>p. isDiagonalPair c (int (fst p)) (int (snd p)) (Some n))
                   (upperTriangle n)) = n div 2"
    using count_opposite_pairs[OF assms(1)] by (simp add: isDiagonalPair_iff[OF pos] assms(1))
  have C: "length ?lines = n * (n - 1) div 2"
  proof -
    have "length ?lines = length (map summary ?lines)" by simp
    also have "\<dots> = length (upperTriangle n)"
      unfolding S by (simp add: completeConnections_upperTriangle)
    finally show ?thesis by (simp add: length_upperTriangle)
  qed
  have D: "is_linear (attr_d (element l)) \<longleftrightarrow> isDiagonalPair c (line_from l) (line_to l) (Some n)"
    if "l \<in> set ?lines" for l
  proof -
    have "summary l \<in> set (map summary ?lines)" using that by simp
    then show ?thesis unfolding S by (auto simp: summary_def lineKey_def)
  qed
  have E: "length (filter (\<lambda>l. is_linear (attr_d (element l))) ?lines) = n div 2"
  proof -
    have "length (filter (\<lambda>l. is_linear (attr_d (element l))) ?lines) =
          length (filter (\<lambda>t. snd (snd t)) (map summary ?lines))"
      by (simp add: filter_map comp_def summary_def)
    also have "\<dots> = length (filter ?diag (completeConnections n))"
      unfolding S by (simp add: filter_map comp_def)
    also have "\<dots> = length (filter (\<lambda>p. isDiagonalPair c (int (fst p)) (int (snd p)) (Some n))
                   (upperTriangle n))"
      by (simp add: completeConnections_upperTriangle filter_map comp_def)
    finally show ?thesis using B by simp
  qed
  show ?thesis using A B C D E by (simp add: is_quadratic_iff)
qed

text \<open>Four items: six lines, two of them straight, \<open>(1, 3)\<close> being one and \<open>(1, 2)\<close> not.\<close>

lemma configured_count_lines_four:
  "length (connectionLines (snd (createConnectionLines (calculateConfig DESKTOP 4)
      (completeConnections 4) (MathUtils_init, PathManager_new True)))) = 6 \<and>
   length (filter (\<lambda>l. is_linear (attr_d (element l)))
     (connectionLines (snd (createConnectionLines (calculateConfig DESKTOP 4)
        (completeConnections 4) (MathUtils_init, PathManager_new True))))) = 2 \<and>
   isDiagonalPair (calculateConfig DESKTOP 4) 1 3 (Some 4) \<and>
   \<not> isDiagonalPair (calculateConfig DESKTOP 4) 1 2 (Some 4)"
  using configured_count_lines[of 4 "calculateConfig DESKTOP 4" "PathManager_new True" MathUtils_init]
  by (simp add: calculateConfig_def PathManager_new_def)

subsection \<open>The lines of the viewer's graph\<close>

text \<open>
  The lines \<open>setupConnectionLines\<close> creates, exactly: one line for every connection of
  the graph, in order, its path computed from the two positions on the circle of
  \<open>GALLERY_CONFIG.current.itemCount\<close> items, and straight or curved as
  \<open>isDiagonalPair\<close> decides for that count. The number of items of the graph occurs
  nowhere in a line.
\<close>

lemma js_or_same: "js_or (Some n) n = n"
  by (simp add: js_or_def)

lemma createSingleLine_exact:
  assumes "isEnabled pm" and "cache_inv mu"
  shows "\<exists>mu'. createSingleLine c i j (mu, pm) =
           (mu', pm\<lparr>connectionLines := connectionLines pm @ [exactLine c (created pm) (i, j)],
                    created := Suc (created pm)\<rparr>) \<and> cache_inv mu'"
proof -
  obtain mu1 where a: "getItemPosition c mu i (Some (itemCount c)) =
      Inr (positionFormula c i (itemCount c), mu1)" and inv1: "cache_inv mu1"
    using getItemPosition_correct[OF assms(2), of c i "Some (itemCount c)"]
    unfolding js_or_same by blast
  obtain mu2 where b: "getItemPosition c mu1 j (Some (itemCount c)) =
      Inr (positionFormula c j (itemCount c), mu2)" and inv2: "cache_inv mu2"
    using getItemPosition_correct[OF inv1, of c j "Some (itemCount c)"]
    unfolding js_or_same by blast
  show ?thesis
    using assms(1) a b inv2
    by (intro exI[of _ mu2]) (simp add: createSingleLine_def Let_def exactLine_def newLine_def)
qed

lemma fold_createSingleLine_exact:
  assumes "isEnabled (snd s)" and "cache_inv (fst s)"
  shows "connectionLines (snd (fold (\<lambda>conn. createSingleLine c (fst conn) (snd conn)) conns s)) =
         connectionLines (snd s) @
           map (\<lambda>kc. exactLine c (fst kc) (snd kc))
             (zip [created (snd s)..<created (snd s) + length conns] conns)"
  using assms
proof (induction conns arbitrary: s)
  case Nil
  then show ?case by simp
next
  case (Cons x conns)
  obtain mu pm where s: "s = (mu, pm)" by (cases s)
  obtain mu' where step: "createSingleLine c (fst x) (snd x) (mu, pm) =
      (mu', pm\<lparr>connectionLines := connectionLines pm @ [exactLine c (created pm) (fst x, snd x)],
               created := Suc (created pm)\<rparr>)" and inv: "cache_inv mu'"
    using createSingleLine_exact[of pm mu c "fst x" "snd x"] Cons.prems s by auto
  let ?s' = "createSingleLine c (fst x) (snd x) s"
  have en': "isEnabled (snd ?s')" using step s Cons.prems(1) by simp
  have inv': "cache_inv (fst ?s')" using step s inv by simp
  have cr: "created (snd ?s') = Suc (created pm)" using step s by simp
  have ln: "connectionLines (snd ?s') = connectionLines pm @ [exactLine c (created pm) x]"
    using step s by simp
  have z: "zip [created pm..<created pm + length (x # conns)] (x # conns) =
           (created pm, x) # zip [Suc (created pm)..<Suc (created pm) + length conns] conns"
  proof -
    have "[created pm..<created pm + length (x # conns)] =
          created pm # [Suc (created pm)..<Suc (created pm) + length conns]"
      by (subst upt_conv_Cons) simp_all
    then show ?thesis by (simp only: zip_Cons_Cons)
  qed
  have "connectionLines (snd (fold (\<lambda>conn. createSingleLine c (fst conn) (snd conn)) (x # conns) s)) =
        connectionLines (snd (fold (\<lambda>conn. createSingleLine c (fst conn) (snd conn)) conns ?s'))"
    by simp
  also have "\<dots> = connectionLines (snd ?s') @
           map (\<lambda>kc. exactLine c (fst kc) (snd kc))
             (zip [created (snd ?s')..<created (snd ?s') + length conns] conns)"
    by (rule Cons.IH[OF en' inv'])
  also have "\<dots> = (connectionLines pm @ [exactLine c (created pm) x]) @
           map (\<lambda>kc. exactLine c (fst kc) (snd kc))
             (zip [Suc (created pm)..<Suc (created pm) + length conns] conns)"
    by (simp only: cr ln)
  also have "\<dots> = connectionLines pm @
           map (\<lambda>kc. exactLine c (fst kc) (snd kc))
             (zip [created pm..<created pm + length (x # conns)] (x # conns))"
    by (simp only: z) simp
  finally show ?case by (simp only: s snd_conv)
qed

lemma setupConnectionLines_exact:
  assumes "isEnabled pm" and "connectionLines pm = []" and "created pm = 0" and "cache_inv mu"
  shows "connectionLines (snd (setupConnectionLines c g (mu, pm))) =
         map (\<lambda>kc. exactLine c (fst kc) (snd kc))
           (zip [0..<length (getConnections g)]
                (map (\<lambda>p. (int (fst p), int (snd p))) (getConnections g)))"
proof (cases "getConnections g = []")
  case True
  then show ?thesis using assms by (simp add: setupConnectionLines_def createConnectionLines_def)
next
  case False
  then show ?thesis
    using fold_createSingleLine_exact[of "(mu, pm)" c
        "map (\<lambda>p. (int (fst p), int (snd p))) (getConnections g)"] assms
    by (simp add: setupConnectionLines_def createConnectionLines_def)
qed

lemma viewerGraph_complete:
  assumes "0 < k" and "k \<le> itemCount c"
  shows "\<exists>g. viewerGraph k c = Inr g \<and> imageCount g = k \<and> getConnections g = upperTriangle k"
proof -
  obtain g where g: "setupCompleteGraph \<lparr>imageCount = k, adjacencyMatrix = initializeMatrix k\<rparr> = Inr g"
    and wf: "wfG k g"
    and cells: "\<forall>a < k. \<forall>b < k. adjacencyMatrix g ! a ! b = (if a \<noteq> b then 1 else 0)"
    using setupCompleteGraph_fresh[of k] by blast
  have "getConnections g = upperTriangle k" using wf cells by (rule getConnections_complete)
  moreover have "imageCount g = k" using wf by (simp add: wfG_def)
  moreover have "viewerGraph k c = Inr g"
    using assms g by (simp add: viewerGraph_def viewerItemCount_def GraphManager_new_fresh min_def)
  ultimately show ?thesis by blast
qed


lemma upperTriangle_12:
  "upperTriangle 12 =
     [(0,1),(0,2),(0,3),(0,4),(0,5),(0,6),(0,7),(0,8),(0,9),(0,10),(0,11),
      (1,2),(1,3),(1,4),(1,5),(1,6),(1,7),(1,8),(1,9),(1,10),(1,11),
      (2,3),(2,4),(2,5),(2,6),(2,7),(2,8),(2,9),(2,10),(2,11),
      (3,4),(3,5),(3,6),(3,7),(3,8),(3,9),(3,10),(3,11),
      (4,5),(4,6),(4,7),(4,8),(4,9),(4,10),(4,11),
      (5,6),(5,7),(5,8),(5,9),(5,10),(5,11),
      (6,7),(6,8),(6,9),(6,10),(6,11),
      (7,8),(7,9),(7,10),(7,11),
      (8,9),(8,10),(8,11),
      (9,10),(9,11),
      (10,11)]"
  by (simp add: upperTriangle_def upt_rec)

lemma desktop_fourteen_itemCount: "itemCount desktop_fourteen = 14"
  by (simp add: desktop_fourteen_def calculateConfig_def)

lemma generateGalleryItems_fourteen: "length (generateGalleryItems desktop_fourteen) = 12"
  by (simp add: generateGalleryItems_def desktop_fourteen_itemCount itemData_length_def upt_rec)

lemma isDiagonalPair_fourteen:
  "isDiagonalPair desktop_fourteen a b (Some 14) \<longleftrightarrow> \<bar>a - b\<bar> = 7"
  using isDiagonalPair_iff[of 14 desktop_fourteen a b] by simp

lemma isDiagonalPair_twelve:
  "isDiagonalPair desktop_fourteen a b (Some 12) \<longleftrightarrow> \<bar>a - b\<bar> = 6"
  using isDiagonalPair_iff[of 12 desktop_fourteen a b] by simp

lemma positionFormula_fourteen:
  "positionFormula desktop_fourteen i 14 = circlePosition i 14 desktop_fourteen"
  by (rule circlePosition_positionFormula) simp

lemma exactLine_fourteen:
  "lineKey (exactLine desktop_fourteen k (i, j)) = (i, j)"
  "attr_d (element (exactLine desktop_fourteen k (i, j))) =
     (if \<bar>i - j\<bar> = 7 then snd (straightLine desktop_fourteen 14 (i, j))
      else snd (curvedLine desktop_fourteen 14 (i, j)))"
  by (simp_all add: exactLine_def newLine_def lineKey_def desktop_fourteen_itemCount
        isDiagonalPair_fourteen positionFormula_fourteen createLinearPath_def createArcPath_def
        straightLine_def curvedLine_def)

lemma is_linear_line [simp]:
  "is_linear (snd (straightLine c n p))" "\<not> is_linear (snd (curvedLine c n p))"
  by (simp_all add: straightLine_def curvedLine_def)

lemma exactLine_view:
  "(lineKey (exactLine c k p), attr_d (element (exactLine c k p))) =
   (p, attr_d (element (exactLine c 0 p)))"
  by (simp add: exactLine_def newLine_def lineKey_def)

lemma exactLine_views:
  assumes "length ks = length ps"
  shows "map (\<lambda>l. (lineKey l, attr_d (element l)))
           (map (\<lambda>kc. exactLine c (fst kc) (snd kc)) (zip ks ps)) =
         map (\<lambda>p. (p, attr_d (element (exactLine c 0 p)))) ps"
  using assms by (induction ks ps rule: list_induct2) (simp_all add: exactLine_view)

lemma views_twelve_under_fourteen:
  "map (\<lambda>l. (lineKey l, attr_d (element l)))
     (map (\<lambda>kc. exactLine desktop_fourteen (fst kc) (snd kc))
        (zip [0..<66] (map (\<lambda>p. (int (fst p), int (snd p))) (upperTriangle 12)))) =
   map (\<lambda>p. (p, if \<bar>fst p - snd p\<bar> = 7 then snd (straightLine desktop_fourteen 14 p)
                   else snd (curvedLine desktop_fourteen 14 p)))
     (map (\<lambda>p. (int (fst p), int (snd p))) (upperTriangle 12))"
proof -
  have "length [0..<66] = length (map (\<lambda>p. (int (fst p), int (snd p))) (upperTriangle 12))"
    by (simp add: length_upperTriangle)
  then show ?thesis
    by (simp only: exactLine_views) (simp add: exactLine_fourteen split_def)
qed

lemma filter_views:
  "map (\<lambda>l. (lineKey l, attr_d (element l))) (filter (\<lambda>l. Q (lineKey l, attr_d (element l))) xs) =
   filter Q (map (\<lambda>l. (lineKey l, attr_d (element l))) xs)"
  by (simp add: filter_map comp_def)

lemma straight_twelve_under_fourteen:
  "map (\<lambda>l. (lineKey l, attr_d (element l)))
     (filter (\<lambda>l. is_linear (attr_d (element l)))
        (map (\<lambda>kc. exactLine desktop_fourteen (fst kc) (snd kc))
           (zip [0..<66] (map (\<lambda>p. (int (fst p), int (snd p))) (upperTriangle 12))))) =
   map (straightLine desktop_fourteen 14) [(0, 7), (1, 8), (2, 9), (3, 10), (4, 11)]"
proof -
  have "filter (\<lambda>v. is_linear (snd v))
          (map (\<lambda>p. (p, if \<bar>fst p - snd p\<bar> = 7 then snd (straightLine desktop_fourteen 14 p)
                   else snd (curvedLine desktop_fourteen 14 p)))
             (map (\<lambda>p. (int (fst p), int (snd p))) (upperTriangle 12))) =
        map (straightLine desktop_fourteen 14) [(0, 7), (1, 8), (2, 9), (3, 10), (4, 11)]"
    unfolding upperTriangle_12 by (simp add: straightLine_def)
  then show ?thesis
    using filter_views[of "\<lambda>v. is_linear (snd v)"]
    by (simp only: views_twelve_under_fourteen snd_conv)
qed

lemma opposite_twelve_under_fourteen:
  "map (\<lambda>l. (lineKey l, attr_d (element l)))
     (filter (\<lambda>l. lineKey l \<in> {(0, 6), (1, 7), (2, 8), (3, 9), (4, 10), (5, 11)})
        (map (\<lambda>kc. exactLine desktop_fourteen (fst kc) (snd kc))
           (zip [0..<66] (map (\<lambda>p. (int (fst p), int (snd p))) (upperTriangle 12))))) =
   map (curvedLine desktop_fourteen 14) [(0, 6), (1, 7), (2, 8), (3, 9), (4, 10), (5, 11)]"
proof -
  have "filter (\<lambda>v. fst v \<in> {(0, 6), (1, 7), (2, 8), (3, 9), (4, 10), (5, 11)})
          (map (\<lambda>p. (p, if \<bar>fst p - snd p\<bar> = 7 then snd (straightLine desktop_fourteen 14 p)
                   else snd (curvedLine desktop_fourteen 14 p)))
             (map (\<lambda>p. (int (fst p), int (snd p))) (upperTriangle 12))) =
        map (curvedLine desktop_fourteen 14) [(0, 6), (1, 7), (2, 8), (3, 9), (4, 10), (5, 11)]"
    unfolding upperTriangle_12 by (simp add: curvedLine_def)
  then show ?thesis
    using filter_views[of "\<lambda>v. fst v \<in> {(0, 6), (1, 7), (2, 8), (3, 9), (4, 10), (5, 11)}"]
    by (simp only: views_twelve_under_fourteen fst_conv)
qed

text \<open>
  Claim C9. The claim holds of \<open>isDiagonalPair\<close> and of the count of opposite pairs
  (\<open>isDiagonalPair_iff\<close>, \<open>count_opposite_pairs\<close>), and of the lines when the graph has
  as many items as are configured (\<open>configured_count_lines\<close>). It fails of the lines of
  a viewer whose graph has fewer items than are configured: \<open>createSingleLine\<close> reads
  \<open>GALLERY_CONFIG.current.itemCount\<close> where the viewer and \<open>AnimationManager\<close> use
  \<open>Math.min(galleryItems.length, config.itemCount)\<close>. After
  \<open>GALLERY_CONFIG.itemCount = 14\<close> the page has the twelve items of \<open>itemData\<close>, and
  the viewer's graph has \<open>N = 12\<close> items and \<open>66\<close> connections, of which
  \<open>isDiagonalPair(a, b, 12)\<close> holds of the six opposite pairs \<open>(i, i + 6)\<close>. Of the
  \<open>66\<close> lines created, the straight segments are five, those of the pairs
  \<open>(i, i + 7)\<close>, and each of the six opposite pairs is a quadratic curve; every
  path runs between positions on the circle of \<open>14\<close> items.
\<close>

theorem twelve_items_under_fourteen_configured:
  "\<exists>g. viewerGraph (length (generateGalleryItems desktop_fourteen)) desktop_fourteen = Inr g \<and>
        imageCount g = 12 \<and>
        length (getConnections g) = 66 \<and>
        filter (\<lambda>p. isDiagonalPair desktop_fourteen (int (fst p)) (int (snd p)) (Some (imageCount g)))
          (getConnections g) = [(0, 6), (1, 7), (2, 8), (3, 9), (4, 10), (5, 11)] \<and>
        length (connectionLines (snd (setupConnectionLines desktop_fourteen g
                  (state_after MathUtils_init ss, PathManager_new True)))) = 66 \<and>
        map (\<lambda>l. (lineKey l, attr_d (element l)))
          (filter (\<lambda>l. is_linear (attr_d (element l)))
             (connectionLines (snd (setupConnectionLines desktop_fourteen g
                (state_after MathUtils_init ss, PathManager_new True))))) =
          map (straightLine desktop_fourteen 14) [(0, 7), (1, 8), (2, 9), (3, 10), (4, 11)] \<and>
        map (\<lambda>l. (lineKey l, attr_d (element l)))
          (filter (\<lambda>l. lineKey l \<in> {(0, 6), (1, 7), (2, 8), (3, 9), (4, 10), (5, 11)})
             (connectionLines (snd (setupConnectionLines desktop_fourteen g
                (state_after MathUtils_init ss, PathManager_new True))))) =
          map (curvedLine desktop_fourteen 14) [(0, 6), (1, 7), (2, 8), (3, 9), (4, 10), (5, 11)]"
proof -
  obtain g where g: "viewerGraph 12 desktop_fourteen = Inr g" and n: "imageCount g = 12"
    and conns: "getConnections g = upperTriangle 12"
    using viewerGraph_complete[of 12 desktop_fourteen] by (auto simp: desktop_fourteen_itemCount)
  let ?lines = "connectionLines (snd (setupConnectionLines desktop_fourteen g
                  (state_after MathUtils_init ss, PathManager_new True)))"
  have len: "length (upperTriangle 12) = 66" by (simp add: length_upperTriangle)
  have inv: "cache_inv (state_after MathUtils_init ss)"
    using cache_inv_init by (rule state_after_inv)
  have lines: "?lines = map (\<lambda>kc. exactLine desktop_fourteen (fst kc) (snd kc))
      (zip [0..<66] (map (\<lambda>p. (int (fst p), int (snd p))) (upperTriangle 12)))"
    using setupConnectionLines_exact[of "PathManager_new True" "state_after MathUtils_init ss"
        desktop_fourteen g] inv
    by (simp add: PathManager_new_def conns len)
  have A: "viewerGraph (length (generateGalleryItems desktop_fourteen)) desktop_fourteen = Inr g"
    by (simp only: generateGalleryItems_fourteen g)
  have B: "length (getConnections g) = 66" by (simp only: conns len)
  have C: "filter (\<lambda>p. isDiagonalPair desktop_fourteen (int (fst p)) (int (snd p)) (Some (imageCount g)))
          (getConnections g) = [(0, 6), (1, 7), (2, 8), (3, 9), (4, 10), (5, 11)]"
    unfolding n conns upperTriangle_12 by (simp add: isDiagonalPair_twelve)
  have D: "length ?lines = 66" unfolding lines by (simp add: len)
  have E: "map (\<lambda>l. (lineKey l, attr_d (element l)))
             (filter (\<lambda>l. is_linear (attr_d (element l))) ?lines) =
           map (straightLine desktop_fourteen 14) [(0, 7), (1, 8), (2, 9), (3, 10), (4, 11)]"
    by (simp only: lines straight_twelve_under_fourteen)
  have F: "map (\<lambda>l. (lineKey l, attr_d (element l)))
             (filter (\<lambda>l. lineKey l \<in> {(0, 6), (1, 7), (2, 8), (3, 9), (4, 10), (5, 11)}) ?lines) =
           map (curvedLine desktop_fourteen 14) [(0, 6), (1, 7), (2, 8), (3, 9), (4, 10), (5, 11)]"
    by (simp only: lines opposite_twelve_under_fourteen)
  show ?thesis
    by (rule exI[of _ g]) (intro conjI A n B C D E F)
qed

end
